theory Spec2Isabelle
  imports Main "HOL-Library.AList"
begin

section \<open>Python strings and integers\<close>

text \<open>
  A Python \<open>str\<close> is modelled as a \<open>string\<close> holding the UTF-8 bytes of the text, so the
  labels of \<open>main.py\<close> that end in an emoji can be written down byte by byte. All the
  separators the program looks for (\<open>:\<close>, \<open>,\<close>, blanks, \<open>AM\<close>, \<open>PM\<close>) are ASCII, and an
  ASCII byte never occurs inside a multi-byte UTF-8 sequence. Python's \<open>int\<close> and
  \<open>str.strip\<close> also accept non-ASCII digits and blanks; these are not modelled.
\<close>

definition is_space :: "char \<Rightarrow> bool" where
  "is_space c = (let n = (of_char c :: nat)
                 in n = 32 \<or> (9 \<le> n \<and> n \<le> 13) \<or> (28 \<le> n \<and> n \<le> 31))"

definition is_digit :: "char \<Rightarrow> bool" where
  "is_digit c = (let n = (of_char c :: nat) in 48 \<le> n \<and> n \<le> 57)"

definition digit_val :: "char \<Rightarrow> int" where
  "digit_val c = int ((of_char c :: nat) - 48)"

text \<open>\<open>s.strip()\<close>: blanks are dropped at both ends.\<close>

definition strip :: "string \<Rightarrow> string" where
  "strip s = rev (dropWhile is_space (rev (dropWhile is_space s)))"

text \<open>\<open>s.split(c)\<close> for a one-character separator: never empty, \<open>''''.split(c) = ['''']\<close>.\<close>

fun split_on :: "char \<Rightarrow> string \<Rightarrow> string list" where
  "split_on c [] = [[]]"
| "split_on c (x # xs) =
     (if x = c then [] # split_on c xs
      else (case split_on c xs of [] \<Rightarrow> [[x]] | w # ws \<Rightarrow> (x # w) # ws))"

text \<open>\<open>s.split()\<close>: the maximal runs of non-blank characters; the first argument is the
  word being read.\<close>

fun split_ws :: "string \<Rightarrow> string \<Rightarrow> string list" where
  "split_ws w [] = (if w = [] then [] else [w])"
| "split_ws w (c # cs) =
     (if is_space c then (if w = [] then split_ws [] cs else w # split_ws [] cs)
      else split_ws (w @ [c]) cs)"

text \<open>\<open>sub in s\<close> on strings.\<close>

fun starts_with :: "string \<Rightarrow> string \<Rightarrow> bool" where
  "starts_with [] s = True"
| "starts_with (a # as) [] = False"
| "starts_with (a # as) (b # bs) = (a = b \<and> starts_with as bs)"

fun contains :: "string \<Rightarrow> string \<Rightarrow> bool" where
  "contains sub [] = (sub = [])"
| "contains sub (x # xs) = (starts_with sub (x # xs) \<or> contains sub xs)"

text \<open>\<open>str(i)\<close> for an integer.\<close>

fun digits_of :: "nat \<Rightarrow> string" where
  "digits_of n =
     (if n < 10 then [''0123456789'' ! n]
      else digits_of (n div 10) @ [''0123456789'' ! (n mod 10)])"

declare digits_of.simps [simp del]

definition py_str :: "int \<Rightarrow> string" where
  "py_str i = (if i < 0 then CHR ''-'' # digits_of (nat (- i)) else digits_of (nat i))"

text \<open>
  \<open>int(s)\<close> for a string: blanks are stripped, one sign is allowed, then decimal digits,
  where single underscores may stand between digits. \<open>None\<close> is Python's \<open>ValueError\<close>.
\<close>

fun digits_ok :: "bool \<Rightarrow> string \<Rightarrow> bool" where
  "digits_ok prev_digit [] = prev_digit"
| "digits_ok prev_digit (c # cs) =
     (if is_digit c then digits_ok True cs
      else if c = CHR ''_'' then prev_digit \<and> digits_ok False cs
      else False)"

definition digits_value :: "string \<Rightarrow> int" where
  "digits_value s = foldl (\<lambda>acc c. if is_digit c then 10 * acc + digit_val c else acc) 0 s"

definition py_int :: "string \<Rightarrow> int option" where
  "py_int s =
     (case strip s of
        [] \<Rightarrow> None
      | c # cs \<Rightarrow>
          (let body = (if c = CHR ''-'' \<or> c = CHR ''+'' then cs else c # cs)
           in if digits_ok False body
              then Some (if c = CHR ''-'' then - digits_value body else digits_value body)
              else None))"

text \<open>\<open>xs[:n]\<close>: a negative bound counts from the end.\<close>

definition slice_to :: "int \<Rightarrow> 'a list \<Rightarrow> 'a list" where
  "slice_to n xs = (if 0 \<le> n then take (nat n) xs else take (length xs - nat (- n)) xs)"

section \<open>The slot grid\<close>

text \<open>\<open>format_hour\<close>, the local function of \<open>_create_time_slots\<close>.\<close>

definition format_hour :: "int \<Rightarrow> string" where
  "format_hour h =
     (if h = 0 \<or> h = 24 then ''12:00-12:50 AM''
      else if h = 12 then ''12:00-12:50 PM''
      else (let period = (if h < 12 then ''AM'' else ''PM'');
                h' = (if h \<le> 12 then h else h - 12)
            in py_str h' @ '':00-'' @ py_str h' @ '':50 '' @ period))"

definition create_time_slots :: "int \<Rightarrow> int \<Rightarrow> int \<Rightarrow> string list" where
  "create_time_slots start_hour end_hour count =
     slice_to count (map format_hour [start_hour..end_hour])"

text \<open>\<open>parse_time\<close>, the local function of \<open>generate_timetable\<close>; \<open>None\<close> is the
  \<open>ValueError\<close> of \<open>int\<close>.\<close>

definition parse_time :: "string \<Rightarrow> int option" where
  "parse_time time_str =
     (case split_on CHR '':'' time_str of
        [] \<Rightarrow> None
      | w # _ \<Rightarrow>
          (case py_int w of
             None \<Rightarrow> None
           | Some hour \<Rightarrow>
               if contains ''PM'' time_str \<and> hour \<noteq> 12 then Some (hour + 12)
               else if contains ''AM'' time_str \<and> hour = 12 then Some 0
               else Some hour))"


section \<open>Randomness\<close>

text \<open>
  The draws of Python's \<open>random\<close> module are read from an explicit list of numbers, the
  random source of one run; an exhausted source yields 0. \<open>random.choice\<close> takes the
  element at the drawn index; \<open>random.sample\<close> takes \<open>k\<close> elements at pairwise different
  positions, one draw each. Every outcome of the library functions is the outcome of
  the model for some source, and the theorems below quantify over all sources.
  \<open>None\<close> is the \<open>IndexError\<close> (\<open>ValueError\<close>) that the library raises on an empty
  (too short) population.
\<close>

type_synonym rng = "nat list"

fun draw :: "rng \<Rightarrow> nat \<times> rng" where
  "draw [] = (0, [])"
| "draw (r # rs) = (r, rs)"

definition choice :: "'a list \<Rightarrow> rng \<Rightarrow> ('a \<times> rng) option" where
  "choice xs g =
     (if xs = [] then None
      else (case draw g of (r, g') \<Rightarrow> Some (xs ! (r mod length xs), g')))"

fun sample :: "'a list \<Rightarrow> nat \<Rightarrow> rng \<Rightarrow> ('a list \<times> rng) option" where
  "sample xs 0 g = Some ([], g)"
| "sample xs (Suc k) g =
     (if xs = [] then None
      else (case draw g of (r, g') \<Rightarrow>
              (case sample (take (r mod length xs) xs @ drop (Suc (r mod length xs)) xs) k g' of
                 None \<Rightarrow> None
               | Some (ys, g'') \<Rightarrow> Some (xs ! (r mod length xs) # ys, g''))))"

section \<open>Teachers\<close>

text \<open>
  A dictionary whose entries are counted or listed (the teachers, the two caches) is an
  association list with one entry per key, in insertion order; the inner dictionaries,
  which are only read and written by key, are maps. A pandas \<open>DataFrame\<close> built from a
  dictionary of dictionaries is modelled as that dictionary.
\<close>

type_synonym grid = "string \<Rightarrow> (string \<Rightarrow> string option) option"

record Teacher =
  name :: string
  subjects :: "string set"
  grades :: "string set"
  schedule :: grid

definition initialize_schedule :: "Teacher \<Rightarrow> string list \<Rightarrow> string list \<Rightarrow> Teacher" where
  "initialize_schedule t days time_slots =
     t\<lparr>schedule := (\<lambda>day. if day \<in> set days
                            then Some (\<lambda>slot. if slot \<in> set time_slots then Some [] else None)
                            else None)\<rparr>"

definition is_available :: "Teacher \<Rightarrow> string \<Rightarrow> string \<Rightarrow> bool" where
  "is_available t day time_slot =
     (case schedule t day of
        None \<Rightarrow> True
      | Some row \<Rightarrow> (case row time_slot of None \<Rightarrow> True | Some v \<Rightarrow> v = []))"

definition assign :: "Teacher \<Rightarrow> string \<Rightarrow> string \<Rightarrow> string \<Rightarrow> Teacher" where
  "assign t day time_slot class_name =
     (case schedule t day of
        None \<Rightarrow> t
      | Some row \<Rightarrow>
          if row time_slot \<noteq> None
          then t\<lparr>schedule := (schedule t)(day \<mapsto> row(time_slot \<mapsto> class_name))\<rparr>
          else t)"

section \<open>The manager\<close>

record manager =
  teachers :: "(string \<times> Teacher) list"
  subject_grade_teachers :: "string \<times> string \<Rightarrow> string list option"
  timetable_cache :: "(string \<times> grid) list"
  teacher_timetable :: "(string \<times> grid) list"

definition init_manager :: manager where
  "init_manager = \<lparr>teachers = [], subject_grade_teachers = Map.empty,
                   timetable_cache = [], teacher_timetable = []\<rparr>"

definition WEEKDAYS :: "string list" where
  "WEEKDAYS = [''Monday'', ''Tuesday'', ''Wednesday'', ''Thursday'', ''Friday'']"

definition GRADE_MAPPING :: "string \<Rightarrow> string option" where
  "GRADE_MAPPING =
     map_of (map (\<lambda>i. (py_str i, ''1-5'')) [1..5] @ map (\<lambda>i. (py_str i, ''6-8'')) [6..8] @
             map (\<lambda>i. (py_str i, ''9-10'')) [9..10] @
             map (\<lambda>i. (py_str i, ''11-12 Science'')) [11..12])"

definition NCERT_SUBJECTS :: "string \<Rightarrow> string list option" where
  "NCERT_SUBJECTS = map_of
     [(''1-5'', [''English'', ''Hindi'', ''Mathematics'', ''EVS'', ''Art'', ''Physical Education'']),
      (''6-8'', [''English'', ''Hindi'', ''Mathematics'', ''Science'', ''Social Science'',
                 ''Sanskrit'', ''Computer Basics'']),
      (''9-10'', [''English'', ''Hindi'', ''Mathematics'', ''Science'', ''Social Science'',
                  ''IT'', ''Commerce Basics'']),
      (''11-12 Science'', [''Physics'', ''Chemistry'', ''Biology/Math'', ''Computer Science'']),
      (''11-12 Commerce'', [''Accountancy'', ''Business Studies'', ''Economics'']),
      (''11-12 Arts'', [''History'', ''Political Science'', ''Sociology''])]"

text \<open>
  \<open>add_teacher\<close>. The two nested loops visit every pair of the cross product of the two
  sets once and append the name to that pair's list, so the index is updated pointwise.
  The returned message is one of two, named by the constructors.
\<close>

datatype add_result = All_Fields_Required | Added_Successfully

definition parse_subjects :: "string \<Rightarrow> string set" where
  "parse_subjects subjects_text =
     set (filter (\<lambda>s. s \<noteq> []) (map strip (split_on CHR '','' subjects_text)))"

definition add_teacher :: "manager \<Rightarrow> string \<Rightarrow> string \<Rightarrow> string list \<Rightarrow> add_result \<times> manager" where
  "add_teacher M nm subjects_text grds =
     (if nm = [] \<or> subjects_text = [] \<or> grds = [] then (All_Fields_Required, M)
      else (let subs = parse_subjects subjects_text;
                grades_set = set grds
            in (Added_Successfully,
                M\<lparr>teachers :=
                    AList.update nm \<lparr>name = nm, subjects = subs, grades = grades_set,
                                     schedule = Map.empty\<rparr> (teachers M),
                  subject_grade_teachers :=
                    (\<lambda>key. if fst key \<in> subs \<and> snd key \<in> grades_set
                           then Some ((case subject_grade_teachers M key of
                                         None \<Rightarrow> [] | Some ns \<Rightarrow> ns) @ [nm])
                           else subject_grade_teachers M key)\<rparr>)))"

text \<open>
  \<open>get_available_teachers\<close>: \<open>None\<close> is the \<open>KeyError\<close> of \<open>self.teachers[name]\<close> for a
  listed name that is not registered.
\<close>

definition get_available_teachers ::
  "manager \<Rightarrow> string \<Rightarrow> string \<Rightarrow> string \<Rightarrow> string \<Rightarrow> string list option" where
  "get_available_teachers M subject grade_key day time_slot =
     (let names = (case subject_grade_teachers M (subject, grade_key) of
                     None \<Rightarrow> [] | Some ns \<Rightarrow> ns)
      in if \<forall>n \<in> set names. map_of (teachers M) n \<noteq> None
         then Some (filter (\<lambda>n. case map_of (teachers M) n of
                                  None \<Rightarrow> False
                                | Some t \<Rightarrow> is_available t day time_slot) names)
         else None)"

text \<open>
  A function that changes the manager and may raise returns \<open>Inl\<close> of the manager as the
  exception leaves it, or \<open>Inr\<close> of its result.
\<close>

definition assign_teacher ::
  "manager \<Rightarrow> string \<Rightarrow> string \<Rightarrow> string \<Rightarrow> string \<Rightarrow> string \<Rightarrow> rng
     \<Rightarrow> manager + (string \<times> manager \<times> rng)" where
  "assign_teacher M subject grade_key day time_slot class_name g =
     (case get_available_teachers M subject grade_key day time_slot of
        None \<Rightarrow> Inl M
      | Some available_teachers \<Rightarrow>
          if available_teachers = [] then Inr (''TBD'', M, g)
          else (case choice available_teachers g of
                  None \<Rightarrow> Inl M
                | Some (teacher, g') \<Rightarrow>
                    (case map_of (teachers M) teacher of
                       None \<Rightarrow> Inl M
                     | Some t \<Rightarrow>
                         Inr (teacher,
                              M\<lparr>teachers := AList.update teacher
                                   (assign t day time_slot class_name) (teachers M)\<rparr>,
                              g'))))"

definition get_grade_key :: "string \<Rightarrow> string" where
  "get_grade_key grade = (case GRADE_MAPPING grade of None \<Rightarrow> ''11-12 Science'' | Some k \<Rightarrow> k)"


section \<open>Generation\<close>

record params =
  selected_sections :: "string list"
  activity_subjects :: "string list"
  activity_count :: string
  start_time :: string
  end_time :: string
  periods_per_day :: int
  lunch_time :: string
  saturday_option :: string

text \<open>
  The status messages of \<open>generate_timetable\<close>, in the order of the source: the success
  message, the three validation messages (with the numbers they print), and the message
  of the \<open>except\<close> clause.
\<close>

datatype status =
    Generation_Complete
  | End_Must_Be_After_Start
  | Not_Enough_Hours int int
  | Expected_48_Classes nat
  | Error

definition LUNCH_BREAK :: string where
  "LUNCH_BREAK = ''Lunch Break '' @ [CHR 0xF0, CHR 0x9F, CHR 0x8D, CHR 0xBD]"

text \<open>Lines 148 to 155: the two hours, the two checks and the slot list.\<close>

definition time_slots_of :: "params \<Rightarrow> status + string list" where
  "time_slots_of p =
     (case parse_time (start_time p) of
        None \<Rightarrow> Inl Error
      | Some start_hour \<Rightarrow>
          (case parse_time (end_time p) of
             None \<Rightarrow> Inl Error
           | Some end_hour \<Rightarrow>
               if end_hour \<le> start_hour then Inl End_Must_Be_After_Start
               else if end_hour - start_hour < periods_per_day p
               then Inl (Not_Enough_Hours (end_hour - start_hour) (periods_per_day p))
               else Inr (create_time_slots start_hour end_hour (periods_per_day p))))"

definition days_of :: "params \<Rightarrow> string list" where
  "days_of p = WEEKDAYS @ (if saturday_option p \<noteq> ''Holiday'' then [''Saturday''] else [])"

definition class_label :: "int \<Rightarrow> string \<Rightarrow> string" where
  "class_label i section = ''Grade '' @ py_str i @ '' '' @ section"

definition classes_of :: "string list \<Rightarrow> string list" where
  "classes_of sections = concat (map (\<lambda>i. map (class_label i) sections) [1..12])"

text \<open>The state of the loop body for one class: its grid, its pool of open slots per
  day, the manager and the random source.\<close>

record cstate =
  timetable :: grid
  available_slots :: "string \<Rightarrow> string list option"
  mgr :: manager
  source :: rng

text \<open>\<open>timetable[time][day] = v\<close> and \<open>available_slots[day].remove(time)\<close>; \<open>None\<close> is the
  \<open>KeyError\<close> or the \<open>ValueError\<close> of \<open>list.remove\<close>.\<close>

definition set_cell :: "grid \<Rightarrow> string \<Rightarrow> string \<Rightarrow> string \<Rightarrow> grid option" where
  "set_cell tt time day v =
     (case tt time of None \<Rightarrow> None | Some row \<Rightarrow> Some (tt(time \<mapsto> row(day \<mapsto> v))))"

definition pool_remove ::
  "(string \<Rightarrow> string list option) \<Rightarrow> string \<Rightarrow> string \<Rightarrow> (string \<Rightarrow> string list option) option" where
  "pool_remove av day time =
     (case av day of
        None \<Rightarrow> None
      | Some xs \<Rightarrow> if time \<in> set xs then Some (av(day \<mapsto> remove1 time xs)) else None)"

text \<open>Lines 181 to 184, the lunch loop over the days.\<close>

fun place_lunch ::
  "string \<Rightarrow> string list \<Rightarrow> grid \<times> (string \<Rightarrow> string list option)
     \<Rightarrow> (grid \<times> (string \<Rightarrow> string list option)) option" where
  "place_lunch lunch [] (tt, av) = Some (tt, av)"
| "place_lunch lunch (day # days) (tt, av) =
     (case set_cell tt lunch day LUNCH_BREAK of
        None \<Rightarrow> None
      | Some tt' \<Rightarrow>
          (case av day of
             None \<Rightarrow> None
           | Some xs \<Rightarrow>
               place_lunch lunch days
                 (tt', if lunch \<in> set xs then av(day \<mapsto> remove1 lunch xs) else av)))"

text \<open>Line 189, the list of all open (day, slot) pairs.\<close>

fun all_slots :: "(string \<Rightarrow> string list option) \<Rightarrow> string list \<Rightarrow> (string \<times> string) list option" where
  "all_slots av [] = Some []"
| "all_slots av (day # days) =
     (case av day of
        None \<Rightarrow> None
      | Some xs \<Rightarrow>
          (case all_slots av days of
             None \<Rightarrow> None
           | Some ps \<Rightarrow> Some (map (Pair day) xs @ ps)))"

text \<open>
  The body shared by the activity loop (lines 192 to 195) and the core loop (lines 201 to
  204): a random subject, \<open>assign_teacher\<close>, the cell and the removal from the pool.
\<close>

definition place ::
  "string list \<Rightarrow> string \<Rightarrow> string \<Rightarrow> string \<Rightarrow> string \<Rightarrow> cstate \<Rightarrow> manager + cstate" where
  "place options grade_key day time class_name st =
     (case choice options (source st) of
        None \<Rightarrow> Inl (mgr st)
      | Some (subject, g1) \<Rightarrow>
          (case assign_teacher (mgr st) subject grade_key day time class_name g1 of
             Inl M \<Rightarrow> Inl M
           | Inr (teacher, M', g') \<Rightarrow>
               (case set_cell (timetable st) time day (subject @ '' ('' @ teacher @ '')'') of
                  None \<Rightarrow> Inl M'
                | Some tt' \<Rightarrow>
                    (case pool_remove (available_slots st) day time of
                       None \<Rightarrow> Inl M'
                     | Some av' \<Rightarrow>
                         Inr \<lparr>timetable = tt', available_slots = av', mgr = M', source = g'\<rparr>))))"

fun fill_cells ::
  "string list \<Rightarrow> string \<Rightarrow> string \<Rightarrow> (string \<times> string) list \<Rightarrow> cstate \<Rightarrow> manager + cstate" where
  "fill_cells options grade_key class_name [] st = Inr st"
| "fill_cells options grade_key class_name ((day, time) # ps) st =
     (case place options grade_key day time class_name st of
        Inl M \<Rightarrow> Inl M
      | Inr st' \<Rightarrow> fill_cells options grade_key class_name ps st')"

text \<open>Lines 198 to 204: for every day, the slots still open on that day (a copy of the
  pool, taken when the day is reached) are filled in order.\<close>

fun fill_core ::
  "string list \<Rightarrow> string \<Rightarrow> string \<Rightarrow> string list \<Rightarrow> cstate \<Rightarrow> manager + cstate" where
  "fill_core core_subjects grade_key class_name [] st = Inr st"
| "fill_core core_subjects grade_key class_name (day # days) st =
     (case available_slots st day of
        None \<Rightarrow> Inl (mgr st)
      | Some slots \<Rightarrow>
          (case fill_cells core_subjects grade_key class_name (map (Pair day) slots) st of
             Inl M \<Rightarrow> Inl M
           | Inr st' \<Rightarrow> fill_core core_subjects grade_key class_name days st'))"

text \<open>Lines 186 to 195, the activity placement.\<close>

definition place_activities ::
  "params \<Rightarrow> string list \<Rightarrow> string list \<Rightarrow> string \<Rightarrow> string \<Rightarrow> cstate \<Rightarrow> manager + cstate" where
  "place_activities p days time_slots grade_key class_name st =
     (case py_int (activity_count p) of
        None \<Rightarrow> Inl (mgr st)
      | Some n \<Rightarrow>
          (let count = min n (int (length days * length time_slots));
               activity_options = activity_subjects p
           in if activity_options \<noteq> [] \<and> count > 0
              then (case all_slots (available_slots st) days of
                      None \<Rightarrow> Inl (mgr st)
                    | Some pairs \<Rightarrow>
                        (case sample pairs (nat (min count (int (length pairs)))) (source st) of
                           None \<Rightarrow> Inl (mgr st)
                         | Some (activity_slots, g') \<Rightarrow>
                             fill_cells activity_options grade_key class_name activity_slots
                               (st\<lparr>source := g'\<rparr>)))
              else Inr st))"

text \<open>Lines 174 to 184: the empty grid, the pool of open slots of every day, and the
  lunch break.\<close>

definition class_start ::
  "params \<Rightarrow> string list \<Rightarrow> string list \<Rightarrow> (grid \<times> (string \<Rightarrow> string list option)) option" where
  "class_start p days time_slots =
     (let timetable0 = (\<lambda>time. if time \<in> set time_slots
                                then Some (\<lambda>day. if day \<in> set days then Some [] else None)
                                else None);
          saturday_slots = (if saturday_option p = ''Half Day''
                            then take (length time_slots div 2) time_slots
                            else time_slots);
          available0 = (\<lambda>day. if day \<in> set days
                                then Some (if day \<noteq> ''Saturday'' then time_slots
                                           else saturday_slots)
                                else None)
      in if lunch_time p \<in> set time_slots
         then place_lunch (lunch_time p) days (timetable0, available0)
         else Some (timetable0, available0))"

text \<open>Lines 172 to 204, the grid of one class.\<close>

definition process_class ::
  "params \<Rightarrow> string list \<Rightarrow> string list \<Rightarrow> string \<Rightarrow> manager \<Rightarrow> rng
     \<Rightarrow> manager + (grid \<times> manager \<times> rng)" where
  "process_class p days time_slots class_name M g =
     (case split_ws [] class_name of
        _ # grade # _ \<Rightarrow>
          (let grade_key = get_grade_key grade
           in case class_start p days time_slots of
                None \<Rightarrow> Inl M
              | Some (tt1, av1) \<Rightarrow>
                  (case place_activities p days time_slots grade_key class_name
                          \<lparr>timetable = tt1, available_slots = av1, mgr = M, source = g\<rparr> of
                     Inl M' \<Rightarrow> Inl M'
                   | Inr st2 \<Rightarrow>
                       (case NCERT_SUBJECTS grade_key of
                          None \<Rightarrow> Inl (mgr st2)
                        | Some core_subjects \<Rightarrow>
                            (case fill_core core_subjects grade_key class_name days st2 of
                               Inl M' \<Rightarrow> Inl M'
                             | Inr st3 \<Rightarrow> Inr (timetable st3, mgr st3, source st3)))))
      | _ \<Rightarrow> Inl M)"

definition csv_name :: "string \<Rightarrow> string" where
  "csv_name label =
     ''timetables/'' @ map (\<lambda>c. if c = CHR '' '' then CHR ''_'' else c) label @ ''.csv''"

text \<open>Lines 171 to 210, the loop over the classes; the list of file names grows with
  the cache.\<close>

fun process_classes ::
  "params \<Rightarrow> string list \<Rightarrow> string list \<Rightarrow> string list \<Rightarrow> manager \<Rightarrow> string list \<Rightarrow> rng
     \<Rightarrow> manager + (manager \<times> string list \<times> rng)" where
  "process_classes p days time_slots [] M files g = Inr (M, files, g)"
| "process_classes p days time_slots (class_name # rest) M files g =
     (case process_class p days time_slots class_name M g of
        Inl M' \<Rightarrow> Inl M'
      | Inr (tt, M', g') \<Rightarrow>
          process_classes p days time_slots rest
            (M'\<lparr>timetable_cache := AList.update class_name tt (timetable_cache M')\<rparr>)
            (files @ [csv_name class_name]) g')"

text \<open>Lines 212 to 215, the grid of one teacher, read back from the schedule; \<open>None\<close> is
  the \<open>KeyError\<close> of a day or slot missing from the schedule.\<close>

definition teacher_grid :: "Teacher \<Rightarrow> string list \<Rightarrow> string list \<Rightarrow> grid option" where
  "teacher_grid t days time_slots =
     (if \<forall>day \<in> set days. \<forall>slot \<in> set time_slots.
           (case schedule t day of None \<Rightarrow> False | Some row \<Rightarrow> row slot \<noteq> None)
      then Some (\<lambda>day. if day \<in> set days
                       then Some (\<lambda>slot. if slot \<in> set time_slots
                                         then (case schedule t day of
                                                 None \<Rightarrow> None
                                               | Some row \<Rightarrow>
                                                   (case row slot of
                                                      None \<Rightarrow> None
                                                    | Some v \<Rightarrow> Some (if v = [] then ''Free'' else v)))
                                         else None)
                       else None)
      else None)"

fun teacher_schedules ::
  "(string \<times> Teacher) list \<Rightarrow> string list \<Rightarrow> string list \<Rightarrow> (string \<times> grid) list option" where
  "teacher_schedules [] days time_slots = Some []"
| "teacher_schedules ((n, t) # ts) days time_slots =
     (case teacher_grid t days time_slots of
        None \<Rightarrow> None
      | Some G \<Rightarrow>
          (case teacher_schedules ts days time_slots of
             None \<Rightarrow> None
           | Some rest \<Rightarrow> Some ((n, G) # rest)))"

text \<open>
  \<open>generate_timetable\<close>: the status, the list of written files and the manager after the
  call. The \<open>except\<close> clause turns every exception into \<open>Error\<close> and keeps what the
  manager held when it was raised.
\<close>

definition generate_timetable :: "manager \<Rightarrow> params \<Rightarrow> rng \<Rightarrow> status \<times> string list \<times> manager" where
  "generate_timetable M p g =
     (case time_slots_of p of
        Inl st \<Rightarrow> (st, [], M)
      | Inr time_slots \<Rightarrow>
          (let days = days_of p;
               M1 = M\<lparr>teachers := map (\<lambda>(n, t). (n, initialize_schedule t days time_slots))
                                      (teachers M)\<rparr>;
               classes = classes_of (take 4 (selected_sections p))
           in if length classes \<noteq> 48 then (Expected_48_Classes (length classes), [], M1)
              else (case process_classes p days time_slots classes
                           (M1\<lparr>timetable_cache := [], teacher_timetable := []\<rparr>) [] g of
                      Inl M' \<Rightarrow> (Error, [], M')
                    | Inr (M3, files, g') \<Rightarrow>
                        (case teacher_schedules (teachers M3) days time_slots of
                           None \<Rightarrow> (Error, [], M3)
                         | Some scheds \<Rightarrow>
                             (Generation_Complete,
                              files @ map (\<lambda>(n, G). csv_name (''Teacher_'' @ n)) scheds,
                              M3\<lparr>teacher_timetable :=
                                   foldl (\<lambda>c (n, G). AList.update n G c) (teacher_timetable M3)
                                     scheds\<rparr>)))))"

section \<open>Concrete inputs\<close>

text \<open>The values the form of \<open>create_ui\<close> starts with.\<close>

definition example_params :: params where
  "example_params =
     \<lparr>selected_sections = [''A'', ''B'', ''C'', ''D''], activity_subjects = [''Sports''],
      activity_count = ''1'', start_time = ''8:00-8:50 AM'', end_time = ''3:00-3:50 PM'',
      periods_per_day = 7, lunch_time = ''12:00-12:50 PM'', saturday_option = ''Half Day''\<rparr>"

definition example_manager :: manager where
  "example_manager = snd (add_teacher init_manager ''Asha'' ''English, Sports'' [''1-5''])"

text \<open>A run on the starting values with one registered teacher, and the grid it caches
  for a class.\<close>

definition example_run :: "status \<times> string list \<times> manager" where
  "example_run = generate_timetable example_manager example_params [3, 1, 4]"

definition cached_grid :: "manager \<Rightarrow> string \<Rightarrow> grid" where
  "cached_grid M c = (case map_of (timetable_cache M) c of None \<Rightarrow> Map.empty | Some G \<Rightarrow> G)"

section \<open>Observations used by the properties\<close>

text \<open>The list the index holds for a pair, \<open>subject_grade_teachers.get((s, g), [])\<close>.\<close>

definition index_lookup :: "manager \<Rightarrow> string \<Rightarrow> string \<Rightarrow> string list" where
  "index_lookup M s g = (case subject_grade_teachers M (s, g) of None \<Rightarrow> [] | Some ns \<Rightarrow> ns)"

text \<open>The teacher registered under a name teaches subject \<open>s\<close> in grade band \<open>g\<close>.\<close>

definition is_qualified :: "manager \<Rightarrow> string \<Rightarrow> string \<Rightarrow> string \<Rightarrow> bool" where
  "is_qualified M n s g =
     (case map_of (teachers M) n of None \<Rightarrow> False | Some t \<Rightarrow> s \<in> subjects t \<and> g \<in> grades t)"

text \<open>A sequence of \<open>add_teacher\<close> calls, each with its name, subject text and grades.\<close>

definition register_all :: "manager \<Rightarrow> (string \<times> string \<times> string list) list \<Rightarrow> manager" where
  "register_all M regs = foldl (\<lambda>M' (n, txt, grds). snd (add_teacher M' n txt grds)) M regs"

text \<open>A registration that \<open>add_teacher\<close> accepts under the name \<open>n\<close> for the pair.\<close>

definition registers :: "string \<times> string \<times> string list \<Rightarrow> string \<Rightarrow> string \<Rightarrow> string \<Rightarrow> bool" where
  "registers r n s g =
     (case r of (n', txt, grds) \<Rightarrow>
        n' = n \<and> n \<noteq> [] \<and> txt \<noteq> [] \<and> grds \<noteq> [] \<and> s \<in> parse_subjects txt \<and> g \<in> set grds)"

text \<open>The entry of a dictionary of dictionaries, \<open>G[a][b]\<close>, if it is there.\<close>

definition cell :: "grid \<Rightarrow> string \<Rightarrow> string \<Rightarrow> string option" where
  "cell G a b = (case G a of None \<Rightarrow> None | Some row \<Rightarrow> row b)"

text \<open>
  The manager as the program builds it: one entry per teacher name (the alist stands for
  a dictionary), and every name the index lists is a registered teacher.
\<close>

definition index_ok :: "manager \<Rightarrow> bool" where
  "index_ok M \<longleftrightarrow>
     (\<forall>key ns. subject_grade_teachers M key = Some ns \<longrightarrow> set ns \<subseteq> fst ` set (teachers M))"

definition wf_manager :: "manager \<Rightarrow> bool" where
  "wf_manager M \<longleftrightarrow> distinct (map fst (teachers M)) \<and> index_ok M"

text \<open>The pool of a day as a list, empty for a day without a pool.\<close>

definition pool_of :: "cstate \<Rightarrow> string \<Rightarrow> string list" where
  "pool_of s d = (case available_slots s d of None \<Rightarrow> [] | Some xs \<Rightarrow> xs)"

text \<open>The entry of a teacher's own schedule, \<open>teachers[n].schedule[day][slot]\<close>.\<close>

definition booking :: "manager \<Rightarrow> string \<Rightarrow> string \<Rightarrow> string \<Rightarrow> string option" where
  "booking M n day slot =
     (case map_of (teachers M) n of None \<Rightarrow> None | Some t \<Rightarrow> cell (schedule t) day slot)"

text \<open>The pool a day starts with (line 178), and the pool after the lunch break has been
  taken out (lines 183 and 184).\<close>

definition open_slots :: "params \<Rightarrow> string list \<Rightarrow> string \<Rightarrow> string list" where
  "open_slots p time_slots day =
     (if day \<noteq> ''Saturday'' then time_slots
      else if saturday_option p = ''Half Day''
      then take (length time_slots div 2) time_slots else time_slots)"

definition start_pool :: "params \<Rightarrow> string list \<Rightarrow> string \<Rightarrow> string list" where
  "start_pool p time_slots day =
     (if lunch_time p \<in> set time_slots
      then remove1 (lunch_time p) (open_slots p time_slots day)
      else open_slots p time_slots day)"

text \<open>The grid after the lunch break: blank cells, and the lunch label in the lunch row.\<close>

definition start_grid :: "params \<Rightarrow> string list \<Rightarrow> string list \<Rightarrow> grid" where
  "start_grid p days time_slots =
     (\<lambda>time. if time \<in> set time_slots
              then Some (\<lambda>day. if day \<in> set days
                               then Some (if time = lunch_time p then LUNCH_BREAK else [])
                               else None)
              else None)"

text \<open>What the loops of one class keep true of the grid and the pools: a day has a pool
  exactly if it is a day of the run, and the pool holds slots of the starting pool; a
  cell outside the starting pool is as the lunch stage left it; a cell of the starting
  pool is still in the pool or holds a subject with a name in brackets.\<close>

definition grid_inv :: "params \<Rightarrow> string list \<Rightarrow> string list \<Rightarrow> cstate \<Rightarrow> bool" where
  "grid_inv p days time_slots s \<longleftrightarrow>
     (\<forall>d. case available_slots s d of
             None \<Rightarrow> d \<notin> set days
           | Some xs \<Rightarrow> d \<in> set days \<and> set xs \<subseteq> set (start_pool p time_slots d)) \<and>
     (\<forall>t d. t \<notin> set (start_pool p time_slots d) \<or> d \<notin> set days \<longrightarrow>
            cell (timetable s) t d = cell (start_grid p days time_slots) t d) \<and>
     (\<forall>t d. t \<in> set (start_pool p time_slots d) \<longrightarrow> d \<in> set days \<longrightarrow>
            (\<exists>xs. available_slots s d = Some xs \<and> t \<in> set xs) \<or>
            (\<exists>subj n. cell (timetable s) t d = Some (subj @ '' ('' @ n @ '')'')))"

text \<open>What \<open>assign_teacher\<close> leaves alone: the index, the caches and the teacher names.\<close>

definition frame :: "manager \<Rightarrow> manager \<Rightarrow> bool" where
  "frame M M' \<longleftrightarrow>
     subject_grade_teachers M' = subject_grade_teachers M \<and>
     timetable_cache M' = timetable_cache M \<and>
     teacher_timetable M' = teacher_timetable M \<and>
     map fst (teachers M') = map fst (teachers M)"

text \<open>From \<open>M\<close> to \<open>M'\<close> the only schedule entries that changed were free, now hold
  the class label, and belong to a day of the run and a slot of that day's starting
  pool.\<close>

definition bookings_grow ::
  "params \<Rightarrow> string list \<Rightarrow> string list \<Rightarrow> string \<Rightarrow> manager \<Rightarrow> manager \<Rightarrow> bool" where
  "bookings_grow p days time_slots class_name M M' \<longleftrightarrow>
     (\<forall>n d t. booking M' n d t = booking M n d t \<or>
              (booking M n d t = Some [] \<and> booking M' n d t = Some class_name \<and>
               d \<in> set days \<and> t \<in> set (start_pool p time_slots d)))"

text \<open>Every registered teacher's schedule has an entry for every day and slot of the
  run.\<close>

definition sched_covers :: "string list \<Rightarrow> string list \<Rightarrow> manager \<Rightarrow> bool" where
  "sched_covers days time_slots M \<longleftrightarrow>
     (\<forall>n d t. n \<in> fst ` set (teachers M) \<longrightarrow> d \<in> set days \<longrightarrow> t \<in> set time_slots \<longrightarrow>
              booking M n d t \<noteq> None)"

text \<open>Every cell of the grid of a class is blank, the lunch label, a subject with the
  placeholder, or a subject with the name of a teacher whose own schedule holds the
  class at that day and slot.\<close>

definition backed :: "string \<Rightarrow> manager \<Rightarrow> grid \<Rightarrow> bool" where
  "backed class_name M G \<longleftrightarrow>
     (\<forall>t d v. cell G t d = Some v \<longrightarrow>
        v = [] \<or> v = LUNCH_BREAK \<or> (\<exists>subj. v = subj @ '' (TBD)'') \<or>
        (\<exists>subj n. v = subj @ '' ('' @ n @ '')'' \<and> booking M n d t = Some class_name))"

text \<open>A cell text shows a teacher: it ends with the name in brackets after a blank.\<close>

definition shows_teacher :: "string \<Rightarrow> string \<Rightarrow> bool" where
  "shows_teacher v n \<longleftrightarrow>
     (let w = '' ('' @ n @ '')''
      in length w \<le> length v \<and> drop (length v - length w) v = w)"

text \<open>The finished grid of a class: a cell outside the starting pool of its day is as
  the lunch stage left it, a cell of the starting pool holds a subject with a name in
  brackets.\<close>

definition grid_ok :: "params \<Rightarrow> string list \<Rightarrow> string list \<Rightarrow> grid \<Rightarrow> bool" where
  "grid_ok p days time_slots G \<longleftrightarrow>
     (\<forall>t d. (t \<notin> set (start_pool p time_slots d) \<or> d \<notin> set days \<longrightarrow>
               cell G t d = cell (start_grid p days time_slots) t d) \<and>
            (t \<in> set (start_pool p time_slots d) \<and> d \<in> set days \<longrightarrow>
               (\<exists>subj n. cell G t d = Some (subj @ '' ('' @ n @ '')''))))"

text \<open>What holds of the manager between two classes of a run that started in \<open>M0\<close>.\<close>

definition run_inv :: "params \<Rightarrow> string list \<Rightarrow> string list \<Rightarrow> manager \<Rightarrow> manager \<Rightarrow> bool" where
  "run_inv p days time_slots M0 M \<longleftrightarrow>
     subject_grade_teachers M = subject_grade_teachers M0 \<and>
     teacher_timetable M = teacher_timetable M0 \<and>
     map fst (teachers M) = map fst (teachers M0) \<and>
     sched_covers days time_slots M \<and>
     (\<forall>n d t. booking M n d t = booking M0 n d t \<or>
              (booking M0 n d t = Some [] \<and> d \<in> set days \<and>
               t \<in> set (start_pool p time_slots d))) \<and>
     (\<forall>(c, G) \<in> set (timetable_cache M).
        c \<noteq> [] \<and> grid_ok p days time_slots G \<and> backed c M G)"

text \<open>The manager when the loop over the classes starts: every schedule reset (line 160)
  and both caches cleared (lines 167 and 168).\<close>

definition run_start :: "manager \<Rightarrow> string list \<Rightarrow> string list \<Rightarrow> manager" where
  "run_start M days time_slots =
     M\<lparr>teachers := map (\<lambda>(n, t). (n, initialize_schedule t days time_slots)) (teachers M),
       timetable_cache := [], teacher_timetable := []\<rparr>"

text \<open>What the loops of one class need in order not to raise: the grid and pool
  invariant, an index that lists registered teachers only, and a grid row for every
  slot.\<close>

definition succ_inv :: "params \<Rightarrow> string list \<Rightarrow> string list \<Rightarrow> cstate \<Rightarrow> bool" where
  "succ_inv p days time_slots s \<longleftrightarrow>
     grid_inv p days time_slots s \<and> index_ok (mgr s) \<and>
     (\<forall>t \<in> set time_slots. timetable s t \<noteq> None)"

text \<open>The three statuses of the validation checks.\<close>

fun validation_failure :: "status \<Rightarrow> bool" where
  "validation_failure End_Must_Be_After_Start = True"
| "validation_failure (Not_Enough_Hours a b) = True"
| "validation_failure (Expected_48_Classes n) = True"
| "validation_failure st = False"

text \<open>The schedule \<open>initialize_schedule\<close> builds: every cell of the grid present and free.\<close>

definition free_schedule :: "string list \<Rightarrow> string list \<Rightarrow> grid" where
  "free_schedule days time_slots =
     (\<lambda>day. if day \<in> set days
            then Some (\<lambda>slot. if slot \<in> set time_slots then Some [] else None)
            else None)"

text \<open>The state of the loop body before the first cell of a class is filled, for one
  day and one slot and a manager without teachers.\<close>

definition example_cstate :: cstate where
  "example_cstate =
     \<lparr>timetable = free_schedule [''8:00-8:50 AM''] [''Monday''],
      available_slots = [''Monday'' \<mapsto> [''8:00-8:50 AM'']],
      mgr = init_manager, source = []\<rparr>"

text \<open>The text of a grid cell, empty for a cell that is not in the grid.\<close>

definition cell_text :: "grid \<Rightarrow> string \<Rightarrow> string \<Rightarrow> string" where
  "cell_text G t d = (case cell G t d of None \<Rightarrow> [] | Some v \<Rightarrow> v)"

text \<open>Parameters whose 25 slots run from hour 0 to hour 24, which both carry the label
  \<open>12:00-12:50 AM\<close>; that label is also the lunch slot.\<close>

definition midnight_params :: params where
  "midnight_params =
     \<lparr>selected_sections = [''A'', ''B'', ''C'', ''D''], activity_subjects = [''Sports''],
      activity_count = ''1'', start_time = ''12:00-12:50 AM'', end_time = ''13:00-13:50 PM'',
      periods_per_day = 25, lunch_time = ''12:00-12:50 AM'', saturday_option = ''Holiday''\<rparr>"

definition midnight_run :: "status \<times> string list \<times> manager" where
  "midnight_run = generate_timetable example_manager midnight_params []"

section \<open>Properties\<close>

subsection \<open>Hour labels\<close>

lemma hours_enum: "0 \<le> h \<Longrightarrow> h \<le> 23 \<Longrightarrow> h \<in> set [0..23::int]"
  by simp

lemma round_trip_all: "\<forall>h \<in> set [0..23::int]. parse_time (format_hour h) = Some h"
  by code_simp

text \<open>
  C10. For every hour \<open>h\<close> from 0 to 23, parsing the label that \<open>format_hour\<close> produces for
  \<open>h\<close> gives \<open>h\<close> back; midnight is labelled \<open>12:00-12:50 AM\<close> and noon \<open>12:00-12:50 PM\<close>.
\<close>

theorem hour_label_round_trip:
  "0 \<le> h \<Longrightarrow> h \<le> 23 \<Longrightarrow>
     parse_time (format_hour h) = Some h \<and>
     format_hour 0 = ''12:00-12:50 AM'' \<and> format_hour 12 = ''12:00-12:50 PM''"
  using round_trip_all hours_enum by (auto simp: format_hour_def)

theorem hour_label_round_trip_witness:
  "(0::int) \<le> 12 \<and> (12::int) \<le> 23 \<and> parse_time (format_hour 12) = Some 12"
  using hour_label_round_trip [of 12, THEN conjunct1] by simp

subsection \<open>The slot grid\<close>

lemma slice_to_nonneg: "0 \<le> n \<Longrightarrow> slice_to n xs = take (nat n) xs"
  by (simp add: slice_to_def)

lemma take_upto: "0 \<le> n \<Longrightarrow> a + n - 1 \<le> b \<Longrightarrow> take (nat n) [a..b] = [a..a + n - 1]"
proof (induction "nat n" arbitrary: n a)
  case 0
  then show ?case by simp
next
  case (Suc k)
  then have n: "0 < n" "nat (n - 1) = k" by auto
  have ab: "a \<le> b" using Suc.prems n by linarith
  have "take (nat n) [a..b] = a # take (nat (n - 1)) [a+1..b]"
    using ab n Suc.hyps(2) by (simp add: upto_rec1[of a b] flip: Suc.hyps(2))
  also have "take (nat (n - 1)) [a+1..b] = [a+1..a+1+(n-1)-1]"
    using Suc.hyps(1)[of "n - 1" "a + 1"] n Suc.prems by simp
  also have "a # [a+1..a+1+(n-1)-1] = [a..a+n-1]"
    using n by (simp add: upto_rec1[of a "a + n - 1"])
  finally show ?case .
qed

lemma create_time_slots_eq:
  "0 \<le> n \<Longrightarrow> n \<le> eh - sh \<Longrightarrow>
     create_time_slots sh eh n = map format_hour [sh..sh + n - 1]"
  by (simp add: create_time_slots_def slice_to_nonneg take_map take_upto)

lemma time_slots_of_ok:
  "parse_time (start_time p) = Some sh \<Longrightarrow> parse_time (end_time p) = Some eh \<Longrightarrow>
   sh < eh \<Longrightarrow> periods_per_day p \<le> eh - sh \<Longrightarrow>
   time_slots_of p = Inr (create_time_slots sh eh (periods_per_day p))"
  by (simp add: time_slots_of_def)

lemma generate_invalid:
  "time_slots_of p = Inl st \<Longrightarrow> generate_timetable M p g = (st, [], M)"
  by (simp add: generate_timetable_def)

lemma example_parse:
  "parse_time ''8:00-8:50 AM'' = Some 8 \<and> parse_time ''3:00-3:50 PM'' = Some 15"
  by code_simp

lemma example_slots:
  "map format_hour [8..14] =
     [''8:00-8:50 AM'', ''9:00-9:50 AM'', ''10:00-10:50 AM'', ''11:00-11:50 AM'',
      ''12:00-12:50 PM'', ''1:00-1:50 PM'', ''2:00-2:50 PM'']"
  by code_simp

text \<open>
  C7. With both times parsed: generation fails with the validation status, no slot list
  and an unchanged manager when the end hour is not after the start hour, or when the
  span of hours is smaller than the number of periods; otherwise the slot list consists
  of the labels of the hours from the start hour on, one per period. The times
  \<open>8:00-8:50 AM\<close> and \<open>3:00-3:50 PM\<close> with 7 periods give the seven labels from
  \<open>8:00-8:50 AM\<close> to \<open>2:00-2:50 PM\<close>.
\<close>

theorem slot_grid_construction:
  assumes "parse_time (start_time p) = Some sh" and "parse_time (end_time p) = Some eh"
  shows "(eh \<le> sh \<longrightarrow>
            time_slots_of p = Inl End_Must_Be_After_Start \<and>
            generate_timetable M p g = (End_Must_Be_After_Start, [], M)) \<and>
         (sh < eh \<and> eh - sh < periods_per_day p \<longrightarrow>
            time_slots_of p = Inl (Not_Enough_Hours (eh - sh) (periods_per_day p)) \<and>
            generate_timetable M p g = (Not_Enough_Hours (eh - sh) (periods_per_day p), [], M)) \<and>
         (sh < eh \<and> periods_per_day p \<le> eh - sh \<and> 0 \<le> periods_per_day p \<longrightarrow>
            time_slots_of p = Inr (map format_hour [sh..sh + periods_per_day p - 1]) \<and>
            length (map format_hour [sh..sh + periods_per_day p - 1]) = nat (periods_per_day p)) \<and>
         (start_time p = ''8:00-8:50 AM'' \<and> end_time p = ''3:00-3:50 PM'' \<and> periods_per_day p = 7 \<longrightarrow>
            time_slots_of p =
              Inr [''8:00-8:50 AM'', ''9:00-9:50 AM'', ''10:00-10:50 AM'', ''11:00-11:50 AM'',
                   ''12:00-12:50 PM'', ''1:00-1:50 PM'', ''2:00-2:50 PM''])"
proof (intro conjI impI)
  assume "eh \<le> sh"
  then show a: "time_slots_of p = Inl End_Must_Be_After_Start"
    using assms by (simp add: time_slots_of_def)
  show "generate_timetable M p g = (End_Must_Be_After_Start, [], M)"
    using a by (rule generate_invalid)
next
  assume "sh < eh \<and> eh - sh < periods_per_day p"
  then show a: "time_slots_of p = Inl (Not_Enough_Hours (eh - sh) (periods_per_day p))"
    using assms by (simp add: time_slots_of_def)
  show "generate_timetable M p g = (Not_Enough_Hours (eh - sh) (periods_per_day p), [], M)"
    using a by (rule generate_invalid)
next
  assume h: "sh < eh \<and> periods_per_day p \<le> eh - sh \<and> 0 \<le> periods_per_day p"
  then show "time_slots_of p = Inr (map format_hour [sh..sh + periods_per_day p - 1])"
    using assms by (simp add: time_slots_of_ok create_time_slots_eq)
  show "length (map format_hour [sh..sh + periods_per_day p - 1]) = nat (periods_per_day p)"
    using h by simp
next
  assume h: "start_time p = ''8:00-8:50 AM'' \<and> end_time p = ''3:00-3:50 PM'' \<and> periods_per_day p = 7"
  have "time_slots_of p = Inr (create_time_slots 8 15 7)"
    using time_slots_of_ok[of p 8 15] h example_parse by simp
  then show "time_slots_of p =
              Inr [''8:00-8:50 AM'', ''9:00-9:50 AM'', ''10:00-10:50 AM'', ''11:00-11:50 AM'',
                   ''12:00-12:50 PM'', ''1:00-1:50 PM'', ''2:00-2:50 PM'']"
    using create_time_slots_eq[of 7 15 8] example_slots by simp
qed

theorem slot_grid_construction_witness:
  "time_slots_of example_params =
     Inr [''8:00-8:50 AM'', ''9:00-9:50 AM'', ''10:00-10:50 AM'', ''11:00-11:50 AM'',
          ''12:00-12:50 PM'', ''1:00-1:50 PM'', ''2:00-2:50 PM''] \<and>
   generate_timetable init_manager (example_params\<lparr>end_time := ''7:00-7:50 AM''\<rparr>) [] =
     (End_Must_Be_After_Start, [], init_manager) \<and>
   generate_timetable init_manager (example_params\<lparr>periods_per_day := 9\<rparr>) [] =
     (Not_Enough_Hours 7 9, [], init_manager)"
proof -
  have p7: "parse_time ''7:00-7:50 AM'' = Some 7" by code_simp
  have a: "time_slots_of example_params =
     Inr [''8:00-8:50 AM'', ''9:00-9:50 AM'', ''10:00-10:50 AM'', ''11:00-11:50 AM'',
          ''12:00-12:50 PM'', ''1:00-1:50 PM'', ''2:00-2:50 PM'']"
    using slot_grid_construction [of example_params 8 15 init_manager "[]",
        THEN conjunct2, THEN conjunct2, THEN conjunct2] example_parse
    by (simp add: example_params_def)
  have b: "generate_timetable init_manager (example_params\<lparr>end_time := ''7:00-7:50 AM''\<rparr>) [] =
     (End_Must_Be_After_Start, [], init_manager)"
    using slot_grid_construction [of "example_params\<lparr>end_time := ''7:00-7:50 AM''\<rparr>" 8 7 init_manager "[]",
        THEN conjunct1] example_parse p7
    by (simp add: example_params_def)
  have c: "generate_timetable init_manager (example_params\<lparr>periods_per_day := 9\<rparr>) [] =
     (Not_Enough_Hours 7 9, [], init_manager)"
    using slot_grid_construction [of "example_params\<lparr>periods_per_day := 9\<rparr>" 8 15 init_manager "[]",
        THEN conjunct2, THEN conjunct1] example_parse
    by (simp add: example_params_def)
  show ?thesis using a b c by simp
qed

subsection \<open>Validation failures\<close>

lemma length_classes_of: "length (classes_of xs) = 12 * length xs"
  by (simp add: classes_of_def length_concat comp_def sum_list_triv)

lemma generate_wrong_count:
  "time_slots_of p = Inr ts \<Longrightarrow> length (selected_sections p) < 4 \<Longrightarrow>
   generate_timetable M p g =
     (Expected_48_Classes (12 * length (selected_sections p)), [],
      M\<lparr>teachers := map (\<lambda>(n, t). (n, initialize_schedule t (days_of p) ts)) (teachers M)\<rparr>)"
  by (simp add: generate_timetable_def length_classes_of Let_def)

lemma example_time_slots:
  "time_slots_of example_params =
     Inr [''8:00-8:50 AM'', ''9:00-9:50 AM'', ''10:00-10:50 AM'', ''11:00-11:50 AM'',
          ''12:00-12:50 PM'', ''1:00-1:50 PM'', ''2:00-2:50 PM'']"
proof -
  have "time_slots_of example_params = Inr (create_time_slots 8 15 7)"
    using time_slots_of_ok[of example_params 8 15] example_parse
    by (simp add: example_params_def)
  then show ?thesis
    using create_time_slots_eq[of 7 15 8] example_slots by simp
qed

text \<open>
  C9. A call whose times pass the two checks but which selects fewer than four sections
  returns the section-count status and no files; by then every registered teacher's
  schedule has been reset to the all-free schedule over the days and slots of the new
  run, so every booking of an earlier run is gone, while both caches are as they were.
\<close>

theorem section_count_failure_resets_schedules:
  assumes "time_slots_of p = Inr ts" and "length (selected_sections p) < 4"
    and "generate_timetable M p g = (st, files, M')"
  shows "st = Expected_48_Classes (12 * length (selected_sections p)) \<and> files = [] \<and>
         map fst (teachers M') = map fst (teachers M) \<and>
         (\<forall>(n, t) \<in> set (teachers M').
            schedule t = free_schedule (days_of p) ts \<and> (\<forall>d s. is_available t d s)) \<and>
         timetable_cache M' = timetable_cache M \<and>
         teacher_timetable M' = teacher_timetable M"
proof -
  have M': "M' = M\<lparr>teachers := map (\<lambda>(n, t). (n, initialize_schedule t (days_of p) ts)) (teachers M)\<rparr>"
    and st: "st = Expected_48_Classes (12 * length (selected_sections p))" and f: "files = []"
    using generate_wrong_count[OF assms(1,2), of M g] assms(3) by simp_all
  have "\<forall>(n, t) \<in> set (teachers M').
            schedule t = free_schedule (days_of p) ts \<and> (\<forall>d s. is_available t d s)"
    unfolding M' by (auto simp: initialize_schedule_def free_schedule_def is_available_def)
  moreover have "map fst (teachers M') = map fst (teachers M)"
    unfolding M' by (simp add: comp_def case_prod_unfold)
  ultimately show ?thesis using st f M' by simp
qed


lemma time_slots_of_sections [simp]:
  "time_slots_of (p\<lparr>selected_sections := x\<rparr>) = time_slots_of p"
  by (simp add: time_slots_of_def split: option.splits)

theorem section_count_failure_resets_schedules_witness:
  "fst (generate_timetable example_manager (example_params\<lparr>selected_sections := [''A'', ''B'']\<rparr>) [])
     = Expected_48_Classes 24 \<and>
   timetable_cache (snd (snd (generate_timetable example_manager
       (example_params\<lparr>selected_sections := [''A'', ''B'']\<rparr>) [])))
     = timetable_cache example_manager"
  using section_count_failure_resets_schedules
    [of "example_params\<lparr>selected_sections := [''A'', ''B'']\<rparr>" _ example_manager "[]"
        "fst (generate_timetable example_manager (example_params\<lparr>selected_sections := [''A'', ''B'']\<rparr>) [])"
        "fst (snd (generate_timetable example_manager (example_params\<lparr>selected_sections := [''A'', ''B'']\<rparr>) []))"
        "snd (snd (generate_timetable example_manager (example_params\<lparr>selected_sections := [''A'', ''B'']\<rparr>) []))"]
    example_time_slots
  by simp

text \<open>
  C3, as amended. With both times parsed, a call that fails one of the three validation
  checks (end hour not after start hour, too few hours for the periods, fewer than four
  sections) returns a validation status and no files, and leaves the class cache and
  the teacher cache exactly as they were before the call: the caches are cleared only
  after the three checks have passed.
\<close>

theorem validation_failure_keeps_caches:
  assumes "parse_time (start_time p) = Some sh" and "parse_time (end_time p) = Some eh"
    and "eh \<le> sh \<or> eh - sh < periods_per_day p \<or> length (selected_sections p) < 4"
    and "generate_timetable M p g = (st, files, M')"
  shows "validation_failure st \<and> files = [] \<and>
         timetable_cache M' = timetable_cache M \<and> teacher_timetable M' = teacher_timetable M"
proof (cases "eh \<le> sh \<or> eh - sh < periods_per_day p")
  case True
  then have "\<exists>st'. time_slots_of p = Inl st' \<and> validation_failure st'"
    using assms(1,2) by (auto simp: time_slots_of_def)
  then obtain st' where "time_slots_of p = Inl st'" "validation_failure st'" by blast
  then show ?thesis using generate_invalid[of p st' M g] assms(4) by simp
next
  case False
  then have ts: "time_slots_of p = Inr (create_time_slots sh eh (periods_per_day p))"
    using assms(1,2) by (simp add: time_slots_of_ok)
  have "length (selected_sections p) < 4" using False assms(3) by blast
  then show ?thesis using generate_wrong_count[OF ts, of M g] assms(4) by simp
qed

theorem validation_failure_keeps_caches_witness:
  "validation_failure (fst (generate_timetable example_manager
       (example_params\<lparr>end_time := ''8:00-8:50 AM''\<rparr>) []))"
  using validation_failure_keeps_caches
    [of "example_params\<lparr>end_time := ''8:00-8:50 AM''\<rparr>" 8 8 example_manager "[]"
        "fst (generate_timetable example_manager (example_params\<lparr>end_time := ''8:00-8:50 AM''\<rparr>) [])"
        "fst (snd (generate_timetable example_manager (example_params\<lparr>end_time := ''8:00-8:50 AM''\<rparr>) []))"
        "snd (snd (generate_timetable example_manager (example_params\<lparr>end_time := ''8:00-8:50 AM''\<rparr>) []))"]
    example_parse
  by (simp add: example_params_def)

subsection \<open>The qualification index\<close>

lemma register_all_snoc:
  "register_all M (regs @ [(n, txt, grds)]) = snd (add_teacher (register_all M regs) n txt grds)"
  by (simp add: register_all_def)

lemma index_lookup_add:
  "index_lookup (snd (add_teacher M n' txt grds)) s g =
     (if n' \<noteq> [] \<and> txt \<noteq> [] \<and> grds \<noteq> [] \<and> s \<in> parse_subjects txt \<and> g \<in> set grds
      then index_lookup M s g @ [n'] else index_lookup M s g)"
  by (simp add: add_teacher_def index_lookup_def Let_def)

lemma is_qualified_add:
  "is_qualified (snd (add_teacher M n' txt grds)) n s g =
     (if n' \<noteq> [] \<and> txt \<noteq> [] \<and> grds \<noteq> [] \<and> n = n'
      then s \<in> parse_subjects txt \<and> g \<in> set grds else is_qualified M n s g)"
  by (simp add: add_teacher_def is_qualified_def Let_def update_conv')

lemma index_lookup_register_all:
  "n \<in> set (index_lookup (register_all init_manager regs) s g) \<longleftrightarrow>
     (\<exists>r \<in> set regs. registers r n s g)"
proof (induction regs rule: rev_induct)
  case Nil
  then show ?case by (simp add: register_all_def index_lookup_def init_manager_def)
next
  case (snoc r regs)
  obtain n' tx grds where r: "r = (n', tx, grds)" by (cases r) auto
  show ?case
    using snoc.IH by (auto simp: r register_all_snoc index_lookup_add registers_def)
qed

lemma is_qualified_listed:
  "is_qualified (register_all init_manager regs) n s g \<Longrightarrow> \<exists>r \<in> set regs. registers r n s g"
proof (induction regs rule: rev_induct)
  case Nil
  then show ?case by (simp add: register_all_def is_qualified_def init_manager_def)
next
  case (snoc r regs)
  obtain n' tx grds where r: "r = (n', tx, grds)" by (cases r) auto
  show ?case
    using snoc by (auto simp: r register_all_snoc is_qualified_add registers_def split: if_splits)
qed

lemma listed_is_qualified:
  "distinct (map fst regs) \<Longrightarrow> \<exists>r \<in> set regs. registers r n s g \<Longrightarrow>
     is_qualified (register_all init_manager regs) n s g"
proof (induction regs rule: rev_induct)
  case Nil
  then show ?case by simp
next
  case (snoc r regs)
  obtain n' tx grds where r: "r = (n', tx, grds)" by (cases r) auto
  have d: "distinct (map fst regs)" and fresh: "n' \<notin> fst ` set regs"
    using snoc.prems(1) by (auto simp: r)
  show ?case
  proof (cases "registers r n s g")
    case True
    then show ?thesis by (simp add: r register_all_snoc is_qualified_add registers_def)
  next
    case False
    then obtain r' where r': "r' \<in> set regs" "registers r' n s g"
      using snoc.prems(2) by auto
    then have "n \<in> fst ` set regs" by (force simp: registers_def)
    then have "n \<noteq> n'" using fresh by auto
    moreover have "is_qualified (register_all init_manager regs) n s g"
      using snoc.IH d r' by blast
    ultimately show ?thesis by (simp add: r register_all_snoc is_qualified_add)
  qed
qed

text \<open>
  C8, as amended. After any sequence of \<open>add_teacher\<close> calls on the empty manager, a name
  is listed for a pair (s, g) if and only if some accepted call under that name, the
  latest or an earlier one, had s among its subjects and g among its grade bands.
  Hence a teacher whose current sets contain s and g is listed for (s, g); the converse
  holds when no name is registered twice, since no call removes a name from the index.
\<close>

theorem index_membership:
  "(n \<in> set (index_lookup (register_all init_manager regs) s g) \<longleftrightarrow>
      (\<exists>r \<in> set regs. registers r n s g)) \<and>
   (is_qualified (register_all init_manager regs) n s g \<longrightarrow>
      n \<in> set (index_lookup (register_all init_manager regs) s g)) \<and>
   (distinct (map fst regs) \<longrightarrow>
      (n \<in> set (index_lookup (register_all init_manager regs) s g) \<longleftrightarrow>
       is_qualified (register_all init_manager regs) n s g))"
  using index_lookup_register_all is_qualified_listed listed_is_qualified by blast

lemma sports_listed: "''Sports'' \<in> parse_subjects ''English, Sports''"
  by code_simp

theorem index_membership_witness:
  "''Asha'' \<in> set (index_lookup (register_all init_manager
       [(''Asha'', ''English, Sports'', [''1-5''])]) ''Sports'' ''1-5'') \<and>
   is_qualified (register_all init_manager
       [(''Asha'', ''English, Sports'', [''1-5''])]) ''Asha'' ''Sports'' ''1-5''"
  using index_membership [of "''Asha''" "[(''Asha'', ''English, Sports'', [''1-5''])]" "''Sports''" "''1-5''"]
    sports_listed
  by (auto simp: registers_def)

text \<open>
  The claim as stated fails after a second registration under the same name: the name
  stays listed for the subject of the first registration, which the teacher no longer
  has.
\<close>

theorem index_membership_counterexample:
  "''Asha'' \<in> set (index_lookup (register_all init_manager
       [(''Asha'', ''Maths'', [''1-5'']), (''Asha'', ''Physics'', [''1-5''])]) ''Maths'' ''1-5'') \<and>
   \<not> is_qualified (register_all init_manager
       [(''Asha'', ''Maths'', [''1-5'']), (''Asha'', ''Physics'', [''1-5''])]) ''Asha'' ''Maths'' ''1-5''"
  by code_simp

subsection \<open>One assignment\<close>

lemma cell_assign:
  "cell (schedule (assign T d t cn)) d' t' =
     (if d' = d \<and> t' = t \<and> cell (schedule T) d t \<noteq> None then Some cn
      else cell (schedule T) d' t')"
  by (auto simp: assign_def cell_def split: option.splits)

lemma is_available_cell:
  "is_available T d t \<longleftrightarrow> cell (schedule T) d t = None \<or> cell (schedule T) d t = Some []"
  by (auto simp: is_available_def cell_def split: option.splits)

lemma choice_Some: "choice xs g = Some (x, g') \<Longrightarrow> x \<in> set xs"
  by (auto simp: choice_def split: if_splits prod.splits)

lemma choice_succeeds: "xs \<noteq> [] \<Longrightarrow> \<exists>x g'. choice xs g = Some (x, g')"
  by (auto simp: choice_def split: prod.splits)

lemma get_available_Some:
  "get_available_teachers M subj gk d t = Some av \<Longrightarrow> n \<in> set av \<Longrightarrow>
     \<exists>T. map_of (teachers M) n = Some T \<and> is_available T d t \<and> n \<in> set (index_lookup M subj gk)"
  by (auto simp: get_available_teachers_def index_lookup_def Let_def split: if_splits option.splits)

lemma assign_teacher_cases:
  assumes "assign_teacher M subj gk d t cn g = Inr (n, M', g')"
  shows "(get_available_teachers M subj gk d t = Some [] \<and> n = ''TBD'' \<and> M' = M \<and> g' = g) \<or>
         (\<exists>av T. get_available_teachers M subj gk d t = Some av \<and> n \<in> set av \<and>
                 map_of (teachers M) n = Some T \<and> is_available T d t \<and>
                 M' = M\<lparr>teachers := AList.update n (assign T d t cn) (teachers M)\<rparr>)"
proof -
  obtain av where av: "get_available_teachers M subj gk d t = Some av"
    using assms by (auto simp: assign_teacher_def split: option.splits)
  show ?thesis
  proof (cases "av = []")
    case True
    then show ?thesis using assms av by (simp add: assign_teacher_def)
  next
    case False
    then obtain g1 where c: "choice av g = Some (n, g1)"
      using assms av by (auto simp: assign_teacher_def split: option.splits)
    then have n: "n \<in> set av" by (rule choice_Some)
    then obtain T where T: "map_of (teachers M) n = Some T" "is_available T d t"
      using get_available_Some[OF av] by blast
    then show ?thesis using assms av False c n by (auto simp: assign_teacher_def)
  qed
qed

lemma booking_update:
  "booking (M\<lparr>teachers := AList.update n T' (teachers M)\<rparr>) n' d' t' =
     (if n' = n then cell (schedule T') d' t' else booking M n' d' t')"
  by (simp add: booking_def update_conv')

lemma assign_teacher_frame:
  assumes "assign_teacher M subj gk d t cn g = Inr (n, M', g')"
  shows "subject_grade_teachers M' = subject_grade_teachers M \<and>
         timetable_cache M' = timetable_cache M \<and>
         teacher_timetable M' = teacher_timetable M \<and>
         map fst (teachers M') = map fst (teachers M)"
  using assign_teacher_cases[OF assms]
  by (auto simp: update_keys dest!: map_of_SomeD) (metis fst_conv image_eqI)+

lemma assign_teacher_booking:
  assumes "assign_teacher M subj gk d t cn g = Inr (n, M', g')"
  shows "(M' = M \<and> n = ''TBD'' \<and> get_available_teachers M subj gk d t = Some []) \<or>
         ((booking M n d t = None \<or> booking M n d t = Some []) \<and>
          n \<in> set (index_lookup M subj gk) \<and> map_of (teachers M) n \<noteq> None \<and>
          (\<forall>n' d' t'. booking M' n' d' t' =
             (if n' = n \<and> d' = d \<and> t' = t \<and> booking M n d t \<noteq> None then Some cn
              else booking M n' d' t')))"
  using assign_teacher_cases[OF assms]
proof (elim disjE exE conjE)
  fix av T
  assume av: "get_available_teachers M subj gk d t = Some av" "n \<in> set av"
    and T: "map_of (teachers M) n = Some T" "is_available T d t"
    and M': "M' = M\<lparr>teachers := AList.update n (assign T d t cn) (teachers M)\<rparr>"
  have b: "booking M n d t = cell (schedule T) d t" using T by (simp add: booking_def)
  have "\<forall>n' d' t'. booking M' n' d' t' =
             (if n' = n \<and> d' = d \<and> t' = t \<and> booking M n d t \<noteq> None then Some cn
              else booking M n' d' t')"
    unfolding M' booking_update cell_assign b using T by (auto simp: booking_def)
  moreover have "n \<in> set (index_lookup M subj gk)"
    using get_available_Some[OF av] by blast
  ultimately show ?thesis using T b by (auto simp: is_available_cell)
qed simp

subsection \<open>Rules for the loops of one class\<close>

lemma cell_set_cell:
  "set_cell tt t d v = Some tt' \<Longrightarrow>
     cell tt' t' d' = (if t' = t \<and> d' = d then Some v else cell tt t' d')"
  by (auto simp: set_cell_def cell_def split: option.splits if_splits)

lemma set_cell_succeeds: "cell tt t d0 \<noteq> None \<Longrightarrow> \<exists>tt'. set_cell tt t d v = Some tt'"
  by (auto simp: set_cell_def cell_def split: option.splits)

lemma pool_remove_Some:
  "pool_remove av d t = Some av' \<Longrightarrow>
     \<exists>xs. av d = Some xs \<and> t \<in> set xs \<and> av' = av(d \<mapsto> remove1 t xs)"
  by (auto simp: pool_remove_def split: option.splits if_splits)

lemma place_cases:
  assumes "place opts gk d t cn st = Inr st'"
  shows "\<exists>subj n g1. subj \<in> set opts \<and>
           assign_teacher (mgr st) subj gk d t cn g1 = Inr (n, mgr st', source st') \<and>
           set_cell (timetable st) t d (subj @ '' ('' @ n @ '')'') = Some (timetable st') \<and>
           pool_remove (available_slots st) d t = Some (available_slots st')"
proof -
  from assms obtain subj g1 n M' g' tt' av' where
      c: "choice opts (source st) = Some (subj, g1)"
    and a: "assign_teacher (mgr st) subj gk d t cn g1 = Inr (n, M', g')"
    and s: "set_cell (timetable st) t d (subj @ '' ('' @ n @ '')'') = Some tt'"
    and r: "pool_remove (available_slots st) d t = Some av'"
    and st': "st' = \<lparr>timetable = tt', available_slots = av', mgr = M', source = g'\<rparr>"
    by (auto simp: place_def split: option.splits sum.splits prod.splits)
  have "subj \<in> set opts" using c by (rule choice_Some)
  then show ?thesis using a s r st' by auto
qed

lemma fill_cells_rule:
  assumes "fill_cells opts gk cn ps st = Inr st'" and "P st"
    and "\<And>d t s s'. (d, t) \<in> set ps \<Longrightarrow> P s \<Longrightarrow> place opts gk d t cn s = Inr s' \<Longrightarrow> P s'"
  shows "P st'"
  using assms
proof (induction ps arbitrary: st)
  case Nil
  then show ?case by simp
next
  case (Cons a ps)
  obtain d t where a: "a = (d, t)" by (cases a)
  from Cons.prems(1) obtain s1 where s1: "place opts gk d t cn st = Inr s1"
    and rest: "fill_cells opts gk cn ps s1 = Inr st'"
    by (auto simp: a split: sum.splits)
  have "P s1" using Cons.prems(3)[of d t st s1] Cons.prems(2) s1 by (simp add: a)
  then show ?case
    by (rule Cons.IH[OF rest]) (use Cons.prems(3) in auto)
qed

lemma fill_core_rule:
  assumes "fill_core core gk cn ds st = Inr st'" and "P st"
    and "\<And>d t s s'. d \<in> set ds \<Longrightarrow> P s \<Longrightarrow> place core gk d t cn s = Inr s' \<Longrightarrow> P s'"
  shows "P st'"
  using assms
proof (induction ds arbitrary: st)
  case Nil
  then show ?case by simp
next
  case (Cons d ds)
  from Cons.prems(1) obtain xs s1 where xs: "available_slots st d = Some xs"
    and s1: "fill_cells core gk cn (map (Pair d) xs) st = Inr s1"
    and rest: "fill_core core gk cn ds s1 = Inr st'"
    by (auto split: option.splits sum.splits)
  have "P s1"
    by (rule fill_cells_rule[where P = P, OF s1 Cons.prems(2)]) (use Cons.prems(3) in auto)
  then show ?case
    by (rule Cons.IH[OF rest]) (use Cons.prems(3) in auto)
qed

lemma place_activities_rule:
  assumes "place_activities p days ts gk cn st = Inr st'" and "P st"
    and "\<And>s g. P s \<Longrightarrow> P (s\<lparr>source := g\<rparr>)"
    and "\<And>d t s s'. P s \<Longrightarrow> place (activity_subjects p) gk d t cn s = Inr s' \<Longrightarrow> P s'"
  shows "P st'"
proof -
  obtain n where n: "py_int (activity_count p) = Some n"
    using assms(1) by (auto simp: place_activities_def split: option.splits)
  show ?thesis
  proof (cases "activity_subjects p \<noteq> [] \<and> min n (int (length days * length ts)) > 0")
    case False
    then show ?thesis using assms(1,2) n by (auto simp: place_activities_def Let_def)
  next
    case True
    then obtain pairs sl g' where
      f: "fill_cells (activity_subjects p) gk cn sl (st\<lparr>source := g'\<rparr>) = Inr st'"
      using assms(1) n
      by (auto simp: place_activities_def Let_def split: option.splits prod.splits)
    show ?thesis
      by (rule fill_cells_rule[where P = P, OF f]) (use assms(2,3,4) in auto)
  qed
qed

lemma process_class_rule:
  assumes "process_class p days ts cn M g = Inr (G, M', g')"
    and "\<And>tt av. class_start p days ts = Some (tt, av) \<Longrightarrow>
            P \<lparr>timetable = tt, available_slots = av, mgr = M, source = g\<rparr>"
    and "\<And>s g. P s \<Longrightarrow> P (s\<lparr>source := g\<rparr>)"
    and "\<And>opts gk d t s s'. P s \<Longrightarrow> place opts gk d t cn s = Inr s' \<Longrightarrow> P s'"
  shows "\<exists>core gk st2 st. fill_core core gk cn days st2 = Inr st \<and> P st \<and>
           G = timetable st \<and> M' = mgr st \<and> g' = source st"
proof -
  from assms(1) obtain a grade r tt1 av1 st2 core st3 where
      w: "split_ws [] cn = a # grade # r"
    and cs: "class_start p days ts = Some (tt1, av1)"
    and pa: "place_activities p days ts (get_grade_key grade) cn
               \<lparr>timetable = tt1, available_slots = av1, mgr = M, source = g\<rparr> = Inr st2"
    and fc: "fill_core core (get_grade_key grade) cn days st2 = Inr st3"
    and res: "G = timetable st3" "M' = mgr st3" "g' = source st3"
    by (auto simp: process_class_def Let_def split: list.splits option.splits sum.splits prod.splits)
  have "P st2"
    by (rule place_activities_rule[where P = P, OF pa]) (use assms(2,3,4) cs in blast)+
  then have "P st3"
    by (rule fill_core_rule[where P = P, OF fc]) (use assms(4) in blast)+
  then show ?thesis using res fc by blast
qed

subsection \<open>The grid of one class\<close>

lemma place_lunch_Some:
  "distinct ds \<Longrightarrow> tt lunch \<noteq> None \<Longrightarrow> \<forall>d \<in> set ds. av d \<noteq> None \<Longrightarrow>
   \<exists>tt' av'. place_lunch lunch ds (tt, av) = Some (tt', av') \<and>
     (\<forall>t d. cell tt' t d = (if t = lunch \<and> d \<in> set ds then Some LUNCH_BREAK else cell tt t d)) \<and>
     (\<forall>d. av' d = (if d \<in> set ds then map_option (remove1 lunch) (av d) else av d))"
proof (induction ds arbitrary: tt av)
  case Nil
  then show ?case by simp
next
  case (Cons a ds)
  obtain row where row: "tt lunch = Some row" using Cons.prems(2) by auto
  obtain xs where xs: "av a = Some xs" using Cons.prems(3) by auto
  let ?tt1 = "tt(lunch \<mapsto> row(a \<mapsto> LUNCH_BREAK))"
  let ?av1 = "if lunch \<in> set xs then av(a \<mapsto> remove1 lunch xs) else av"
  have sc: "set_cell tt lunch a LUNCH_BREAK = Some ?tt1" by (simp add: set_cell_def row)
  have av1: "?av1 = av(a \<mapsto> remove1 lunch xs)"
    using xs by (auto simp: remove1_idem)
  have "\<exists>tt' av'. place_lunch lunch ds (?tt1, ?av1) = Some (tt', av') \<and>
     (\<forall>t d. cell tt' t d = (if t = lunch \<and> d \<in> set ds then Some LUNCH_BREAK else cell ?tt1 t d)) \<and>
     (\<forall>d. av' d = (if d \<in> set ds then map_option (remove1 lunch) (?av1 d) else ?av1 d))"
    by (rule Cons.IH) (use Cons.prems xs in auto)
  then obtain tt' av' where r: "place_lunch lunch ds (?tt1, ?av1) = Some (tt', av')"
    and c: "\<forall>t d. cell tt' t d = (if t = lunch \<and> d \<in> set ds then Some LUNCH_BREAK else cell ?tt1 t d)"
    and a: "\<forall>d. av' d = (if d \<in> set ds then map_option (remove1 lunch) (?av1 d) else ?av1 d)"
    by blast
  have 1: "place_lunch lunch (a # ds) (tt, av) = Some (tt', av')"
    using r sc xs by simp
  have 2: "\<forall>t d. cell tt' t d = (if t = lunch \<and> d \<in> set (a # ds) then Some LUNCH_BREAK else cell tt t d)"
    using c cell_set_cell[OF sc] by auto
  have 3: "\<forall>d. av' d = (if d \<in> set (a # ds) then map_option (remove1 lunch) (av d) else av d)"
    using a Cons.prems(1) xs unfolding av1 by auto
  show ?case using 1 2 3 by blast
qed

lemma class_start_eq:
  assumes "distinct days"
  shows "\<exists>tt av. class_start p days ts = Some (tt, av) \<and>
           (\<forall>t d. cell tt t d = cell (start_grid p days ts) t d) \<and>
           (\<forall>d. av d = (if d \<in> set days then Some (start_pool p ts d) else None))"
proof (cases "lunch_time p \<in> set ts")
  case False
  then show ?thesis
    by (auto simp: class_start_def Let_def start_grid_def start_pool_def open_slots_def cell_def)
next
  case True
  let ?tt0 = "\<lambda>time. if time \<in> set ts
                then Some (\<lambda>day. if day \<in> set days then Some [] else None) else None"
  let ?av0 = "\<lambda>day. if day \<in> set days then Some (open_slots p ts day) else None"
  have cs: "class_start p days ts = place_lunch (lunch_time p) days (?tt0, ?av0)"
    using True
    by (cases "saturday_option p = ''Half Day''")
       (simp_all add: class_start_def Let_def open_slots_def cong: if_cong)
  obtain tt av where r: "place_lunch (lunch_time p) days (?tt0, ?av0) = Some (tt, av)"
    and c: "\<forall>t d. cell tt t d = (if t = lunch_time p \<and> d \<in> set days then Some LUNCH_BREAK else cell ?tt0 t d)"
    and a: "\<forall>d. av d = (if d \<in> set days then map_option (remove1 (lunch_time p)) (?av0 d) else ?av0 d)"
    using place_lunch_Some[OF assms, of ?tt0 "lunch_time p" ?av0] True by auto
  have "\<forall>t d. cell tt t d = cell (start_grid p days ts) t d"
    using c True by (auto simp: cell_def start_grid_def)
  moreover have "\<forall>d. av d = (if d \<in> set days then Some (start_pool p ts d) else None)"
    using a True by (auto simp: start_pool_def)
  ultimately show ?thesis using cs r by auto
qed


lemma grid_inv_start:
  assumes "distinct days" and "class_start p days ts = Some (tt, av)"
  shows "grid_inv p days ts \<lparr>timetable = tt, available_slots = av, mgr = M, source = g\<rparr>"
proof -
  from class_start_eq[OF assms(1), of p ts] assms(2)
  have c: "\<forall>t d. cell tt t d = cell (start_grid p days ts) t d"
    and a: "\<forall>d. av d = (if d \<in> set days then Some (start_pool p ts d) else None)"
    by auto
  show ?thesis unfolding grid_inv_def using c a by simp
qed

lemma grid_inv_source [simp]: "grid_inv p days ts (s\<lparr>source := g\<rparr>) = grid_inv p days ts s"
  by (simp add: grid_inv_def)

lemma grid_inv_place:
  assumes inv: "grid_inv p days ts s" and pl: "place opts gk d t cn s = Inr s'"
  shows "grid_inv p days ts s'" and "d \<in> set days" and "t \<in> set (start_pool p ts d)"
proof -
  from place_cases[OF pl] obtain subj n where
      sc: "set_cell (timetable s) t d (subj @ '' ('' @ n @ '')'') = Some (timetable s')"
    and pr: "pool_remove (available_slots s) d t = Some (available_slots s')"
    by blast
  from pool_remove_Some[OF pr] obtain xs where xs: "available_slots s d = Some xs" "t \<in> set xs"
    and av': "available_slots s' = (available_slots s)(d \<mapsto> remove1 t xs)" by blast
  have pools: "\<forall>d. case available_slots s d of
             None \<Rightarrow> d \<notin> set days
           | Some xs \<Rightarrow> d \<in> set days \<and> set xs \<subseteq> set (start_pool p ts d)"
    using inv by (simp add: grid_inv_def)
  from pools[rule_format, of d] xs show d: "d \<in> set days" and t: "t \<in> set (start_pool p ts d)"
    by auto
  have cells: "\<And>t' d'. cell (timetable s') t' d' =
       (if t' = t \<and> d' = d then Some (subj @ '' ('' @ n @ '')'') else cell (timetable s) t' d')"
    by (rule cell_set_cell[OF sc])
  have 1: "\<forall>d'. case available_slots s' d' of
             None \<Rightarrow> d' \<notin> set days
           | Some xs \<Rightarrow> d' \<in> set days \<and> set xs \<subseteq> set (start_pool p ts d')"
  proof
    fix d'
    show "case available_slots s' d' of
             None \<Rightarrow> d' \<notin> set days
           | Some xs \<Rightarrow> d' \<in> set days \<and> set xs \<subseteq> set (start_pool p ts d')"
    proof (cases "d' = d")
      case True
      have "set (remove1 t xs) \<subseteq> set xs" by (rule set_remove1_subset)
      then show ?thesis using True av' d pools[rule_format, of d] xs by auto
    next
      case False
      then show ?thesis using av' pools[rule_format, of d'] by simp
    qed
  qed
  have 2: "\<forall>t' d'. t' \<notin> set (start_pool p ts d') \<or> d' \<notin> set days \<longrightarrow>
            cell (timetable s') t' d' = cell (start_grid p days ts) t' d'"
    using inv t d cells by (auto simp: grid_inv_def)
  have old3: "\<And>t' d'. t' \<in> set (start_pool p ts d') \<Longrightarrow> d' \<in> set days \<Longrightarrow>
            (\<exists>xs. available_slots s d' = Some xs \<and> t' \<in> set xs) \<or>
            (\<exists>subj n. cell (timetable s) t' d' = Some (subj @ '' ('' @ n @ '')''))"
    using inv by (simp add: grid_inv_def)
  have 3: "\<forall>t' d'. t' \<in> set (start_pool p ts d') \<longrightarrow> d' \<in> set days \<longrightarrow>
            (\<exists>xs. available_slots s' d' = Some xs \<and> t' \<in> set xs) \<or>
            (\<exists>subj n. cell (timetable s') t' d' = Some (subj @ '' ('' @ n @ '')''))"
  proof (intro allI impI)
    fix t' d' assume a: "t' \<in> set (start_pool p ts d')" "d' \<in> set days"
    show "(\<exists>xs. available_slots s' d' = Some xs \<and> t' \<in> set xs) \<or>
            (\<exists>subj n. cell (timetable s') t' d' = Some (subj @ '' ('' @ n @ '')''))"
    proof (cases "t' = t \<and> d' = d")
      case True
      then have "cell (timetable s') t' d' = Some (subj @ '' ('' @ n @ '')'')"
        using cells by simp
      then show ?thesis by blast
    next
      case False
      from old3[OF a] show ?thesis
      proof
        assume "\<exists>xs. available_slots s d' = Some xs \<and> t' \<in> set xs"
        then obtain ys where ys: "available_slots s d' = Some ys" "t' \<in> set ys" by blast
        show ?thesis
        proof (cases "d' = d")
          case True
          then have "t' \<in> set (remove1 t xs)" using ys xs False by auto
          then show ?thesis using av' True by simp
        next
          case False
          then show ?thesis using av' ys by simp
        qed
      next
        assume "\<exists>subj n. cell (timetable s) t' d' = Some (subj @ '' ('' @ n @ '')'')"
        then obtain subj' n' where "cell (timetable s) t' d' = Some (subj' @ '' ('' @ n' @ '')'')"
          by blast
        then have "cell (timetable s') t' d' = Some (subj' @ '' ('' @ n' @ '')'')"
          using cells[of t' d'] False by auto
        then show ?thesis by blast
      qed
    qed
  qed
  show "grid_inv p days ts s'" unfolding grid_inv_def using 1 2 3 by blast
qed


lemma place_pool:
  "place opts gk d t cn s = Inr s' \<Longrightarrow> available_slots s d = Some (t # xs) \<Longrightarrow>
     available_slots s' = (available_slots s)(d \<mapsto> xs)"
  using place_cases pool_remove_Some by fastforce

lemma fill_day_pool:
  "fill_cells opts gk cn (map (Pair d) xs) st = Inr st' \<Longrightarrow> available_slots st d = Some xs \<Longrightarrow>
     available_slots st' = (available_slots st)(d \<mapsto> [])"
proof (induction xs arbitrary: st)
  case Nil
  then show ?case by auto
next
  case (Cons t xs)
  from Cons.prems(1) obtain s1 where s1: "place opts gk d t cn st = Inr s1"
    and rest: "fill_cells opts gk cn (map (Pair d) xs) s1 = Inr st'"
    by (auto split: sum.splits)
  have a: "available_slots s1 = (available_slots st)(d \<mapsto> xs)"
    using place_pool[OF s1 Cons.prems(2)] .
  have b: "available_slots s1 d = Some xs" using a by simp
  have "available_slots st' = (available_slots s1)(d \<mapsto> [])"
    by (rule Cons.IH[OF rest b])
  then show ?case using a by simp
qed

lemma fill_core_pools:
  "fill_core core gk cn ds st = Inr st' \<Longrightarrow>
     available_slots st' d =
       (if d \<in> set ds then Some [] else available_slots st d)"
proof (induction ds arbitrary: st)
  case Nil
  then show ?case by simp
next
  case (Cons a ds)
  from Cons.prems obtain xs s1 where xs: "available_slots st a = Some xs"
    and s1: "fill_cells core gk cn (map (Pair a) xs) st = Inr s1"
    and rest: "fill_core core gk cn ds s1 = Inr st'"
    by (auto split: option.splits sum.splits)
  have "available_slots s1 = (available_slots st)(a \<mapsto> [])"
    using fill_day_pool[OF s1 xs] .
  then show ?case using Cons.IH[OF rest] by auto
qed

lemma process_class_grid:
  assumes "distinct days" and "process_class p days ts cn M g = Inr (G, M', g')"
  shows "t \<notin> set (start_pool p ts d) \<or> d \<notin> set days \<Longrightarrow>
           cell G t d = cell (start_grid p days ts) t d"
    and "t \<in> set (start_pool p ts d) \<Longrightarrow> d \<in> set days \<Longrightarrow>
           \<exists>subj n. cell G t d = Some (subj @ '' ('' @ n @ '')'')"
proof -
  have "\<exists>core gk st2 st. fill_core core gk cn days st2 = Inr st \<and> grid_inv p days ts st \<and>
           G = timetable st \<and> M' = mgr st \<and> g' = source st"
    by (rule process_class_rule[OF assms(2)])
       (auto intro: grid_inv_start[OF assms(1)] grid_inv_place(1))
  then obtain core gk st2 st where fc: "fill_core core gk cn days st2 = Inr st"
    and inv: "grid_inv p days ts st" and G: "G = timetable st" by blast
  show "t \<notin> set (start_pool p ts d) \<or> d \<notin> set days \<Longrightarrow>
           cell G t d = cell (start_grid p days ts) t d"
    using inv G by (simp add: grid_inv_def)
  assume a: "t \<in> set (start_pool p ts d)" "d \<in> set days"
  have "available_slots st d = Some []" using fill_core_pools[OF fc, of d] a by simp
  then show "\<exists>subj n. cell G t d = Some (subj @ '' ('' @ n @ '')'')"
    using inv a G unfolding grid_inv_def by fastforce
qed

subsection \<open>The manager during one class\<close>

lemma frame_refl [simp]: "frame M M"
  by (simp add: frame_def)

lemma frame_trans: "frame M M' \<Longrightarrow> frame M' M'' \<Longrightarrow> frame M M''"
  by (simp add: frame_def)

lemma bookings_grow_refl [simp]: "bookings_grow p days ts cn M M"
  by (simp add: bookings_grow_def)

lemma start_pool_subset: "set (start_pool p ts d) \<subseteq> set ts"
proof -
  have "set (open_slots p ts d) \<subseteq> set ts"
    by (auto simp: open_slots_def dest: in_set_takeD)
  moreover have "set (remove1 (lunch_time p) (open_slots p ts d)) \<subseteq> set (open_slots p ts d)"
    by (rule set_remove1_subset)
  ultimately show ?thesis by (auto simp: start_pool_def)
qed

lemma sched_covers_grow:
  assumes "sched_covers days ts M" and "frame M M'" and "bookings_grow p days ts cn M M'"
  shows "sched_covers days ts M'"
  unfolding sched_covers_def
proof (intro allI impI)
  fix n d t assume a: "n \<in> fst ` set (teachers M')" "d \<in> set days" "t \<in> set ts"
  have "set (map fst (teachers M')) = set (map fst (teachers M))"
    using assms(2) by (simp add: frame_def)
  then have "n \<in> fst ` set (teachers M)" using a(1) by simp
  then have "booking M n d t \<noteq> None" using assms(1) a by (simp add: sched_covers_def)
  moreover have "booking M' n d t = booking M n d t \<or>
              (booking M n d t = Some [] \<and> booking M' n d t = Some cn)"
    using assms(3) unfolding bookings_grow_def by blast
  ultimately show "booking M' n d t \<noteq> None" by auto
qed

text \<open>The manager part of the invariant of the loops of one class.\<close>

lemma manager_inv_place:
  assumes inv: "grid_inv p days ts s" and pl: "place opts gk d t cn s = Inr s'"
    and fr: "frame M0 (mgr s)" and bg: "bookings_grow p days ts cn M0 (mgr s)"
  shows "frame M0 (mgr s')" and "bookings_grow p days ts cn M0 (mgr s')"
proof -
  from place_cases[OF pl] obtain subj n g1 where
    at: "assign_teacher (mgr s) subj gk d t cn g1 = Inr (n, mgr s', source s')" by blast
  have "frame (mgr s) (mgr s')" using assign_teacher_frame[OF at] by (simp add: frame_def)
  then show "frame M0 (mgr s')" using fr frame_trans by blast
  have d: "d \<in> set days" and t: "t \<in> set (start_pool p ts d)"
    using grid_inv_place(2,3)[OF inv pl] by auto
  from assign_teacher_booking[OF at]
  show "bookings_grow p days ts cn M0 (mgr s')"
  proof
    assume "mgr s' = mgr s \<and> n = ''TBD'' \<and> get_available_teachers (mgr s) subj gk d t = Some []"
    then show ?thesis using bg by simp
  next
    assume a: "(booking (mgr s) n d t = None \<or> booking (mgr s) n d t = Some []) \<and>
          n \<in> set (index_lookup (mgr s) subj gk) \<and> map_of (teachers (mgr s)) n \<noteq> None \<and>
          (\<forall>n' d' t'. booking (mgr s') n' d' t' =
             (if n' = n \<and> d' = d \<and> t' = t \<and> booking (mgr s) n d t \<noteq> None then Some cn
              else booking (mgr s) n' d' t'))"
    show ?thesis
      unfolding bookings_grow_def
    proof (intro allI)
      fix n' d' t'
      have old: "booking (mgr s) n' d' t' = booking M0 n' d' t' \<or>
              (booking M0 n' d' t' = Some [] \<and> booking (mgr s) n' d' t' = Some cn \<and>
               d' \<in> set days \<and> t' \<in> set (start_pool p ts d'))"
        using bg unfolding bookings_grow_def by blast
      show "booking (mgr s') n' d' t' = booking M0 n' d' t' \<or>
              (booking M0 n' d' t' = Some [] \<and> booking (mgr s') n' d' t' = Some cn \<and>
               d' \<in> set days \<and> t' \<in> set (start_pool p ts d'))"
      proof (cases "n' = n \<and> d' = d \<and> t' = t \<and> booking (mgr s) n d t \<noteq> None")
        case True
        then have new: "booking (mgr s') n' d' t' = Some cn" using a by simp
        have "booking (mgr s) n' d' t' = Some []" using True a by auto
        then have "booking M0 n' d' t' = Some []" using old by auto
        then show ?thesis using new True d t by simp
      next
        case False
        then have "booking (mgr s') n' d' t' = booking (mgr s) n' d' t'" using a by auto
        then show ?thesis using old by simp
      qed
    qed
  qed
qed


lemma backed_place:
  assumes inv: "grid_inv p days ts s" and pl: "place opts gk d t cn s = Inr s'"
    and cn: "cn \<noteq> []" and cov: "sched_covers days ts (mgr s)"
    and bk: "backed cn (mgr s) (timetable s)"
  shows "backed cn (mgr s') (timetable s')"
proof -
  from place_cases[OF pl] obtain subj n g1 where
      at: "assign_teacher (mgr s) subj gk d t cn g1 = Inr (n, mgr s', source s')"
    and sc: "set_cell (timetable s) t d (subj @ '' ('' @ n @ '')'') = Some (timetable s')"
    by blast
  have d: "d \<in> set days" and t: "t \<in> set ts"
    using grid_inv_place(2,3)[OF inv pl] start_pool_subset by auto
  have cells: "\<And>t' d'. cell (timetable s') t' d' =
       (if t' = t \<and> d' = d then Some (subj @ '' ('' @ n @ '')'') else cell (timetable s) t' d')"
    by (rule cell_set_cell[OF sc])
  from assign_teacher_booking[OF at]
  show ?thesis
  proof
    assume a: "mgr s' = mgr s \<and> n = ''TBD'' \<and> get_available_teachers (mgr s) subj gk d t = Some []"
    show ?thesis
      unfolding backed_def
    proof (intro allI impI)
      fix t' d' v assume v: "cell (timetable s') t' d' = Some v"
      show "v = [] \<or> v = LUNCH_BREAK \<or> (\<exists>subj. v = subj @ '' (TBD)'') \<or>
            (\<exists>subj n. v = subj @ '' ('' @ n @ '')'' \<and> booking (mgr s') n d' t' = Some cn)"
      proof (cases "t' = t \<and> d' = d")
        case True
        then have "v = subj @ '' (TBD)''" using v cells a by simp
        then show ?thesis by blast
      next
        case False
        then have "cell (timetable s) t' d' = Some v" using v cells[of t' d'] by auto
        then show ?thesis using bk a unfolding backed_def by simp
      qed
    qed
  next
    assume a: "(booking (mgr s) n d t = None \<or> booking (mgr s) n d t = Some []) \<and>
          n \<in> set (index_lookup (mgr s) subj gk) \<and> map_of (teachers (mgr s)) n \<noteq> None \<and>
          (\<forall>n' d' t'. booking (mgr s') n' d' t' =
             (if n' = n \<and> d' = d \<and> t' = t \<and> booking (mgr s) n d t \<noteq> None then Some cn
              else booking (mgr s) n' d' t'))"
    then have "n \<in> fst ` set (teachers (mgr s))"
      by (metis domIff dom_map_of_conv_image_fst)
    then have ex: "booking (mgr s) n d t \<noteq> None"
      using cov d t by (simp add: sched_covers_def)
    have "booking (mgr s) n d t = None \<or> booking (mgr s) n d t = Some []" using a by simp
    then have free: "booking (mgr s) n d t = Some []" using ex by simp
    have new: "booking (mgr s') n d t = Some cn" using a ex by simp
    show ?thesis
      unfolding backed_def
    proof (intro allI impI)
      fix t' d' v assume v: "cell (timetable s') t' d' = Some v"
      show "v = [] \<or> v = LUNCH_BREAK \<or> (\<exists>subj. v = subj @ '' (TBD)'') \<or>
            (\<exists>subj n. v = subj @ '' ('' @ n @ '')'' \<and> booking (mgr s') n d' t' = Some cn)"
      proof (cases "t' = t \<and> d' = d")
        case True
        then have "v = subj @ '' ('' @ n @ '')''" using v cells by simp
        then show ?thesis using new True by blast
      next
        case False
        then have "cell (timetable s) t' d' = Some v" using v cells[of t' d'] by auto
        then have "v = [] \<or> v = LUNCH_BREAK \<or> (\<exists>subj. v = subj @ '' (TBD)'') \<or>
            (\<exists>subj n. v = subj @ '' ('' @ n @ '')'' \<and> booking (mgr s) n d' t' = Some cn)"
          using bk unfolding backed_def by blast
        moreover have "\<And>n'. booking (mgr s) n' d' t' = Some cn \<Longrightarrow>
                         booking (mgr s') n' d' t' = Some cn"
          using a free cn by auto
        ultimately show ?thesis by blast
      qed
    qed
  qed
qed

lemma backed_start:
  assumes "\<forall>t d. cell tt t d = cell (start_grid p days ts) t d"
  shows "backed cn M tt"
  unfolding backed_def using assms
  by (auto simp: cell_def start_grid_def split: if_splits)

lemma process_class_effect:
  assumes dd: "distinct days" and pc: "process_class p days ts cn M g = Inr (G, M', g')"
    and cn: "cn \<noteq> []" and cov: "sched_covers days ts M"
  shows "frame M M'" and "bookings_grow p days ts cn M M'" and "backed cn M' G"
proof -
  let ?P = "\<lambda>s. grid_inv p days ts s \<and> frame M (mgr s) \<and> bookings_grow p days ts cn M (mgr s) \<and>
                 backed cn (mgr s) (timetable s)"
  have "\<exists>core gk st2 st. fill_core core gk cn days st2 = Inr st \<and> ?P st \<and>
           G = timetable st \<and> M' = mgr st \<and> g' = source st"
  proof (rule process_class_rule[OF pc])
    fix tt av assume cs: "class_start p days ts = Some (tt, av)"
    have "\<forall>t d. cell tt t d = cell (start_grid p days ts) t d"
      using class_start_eq[OF dd, of p ts] cs by auto
    then show "?P \<lparr>timetable = tt, available_slots = av, mgr = M, source = g\<rparr>"
      using grid_inv_start[OF dd cs] backed_start by simp
  next
    fix s g assume "?P s" then show "?P (s\<lparr>source := g\<rparr>)" by simp
  next
    fix opts gk d t s s' assume P: "?P s" and pl: "place opts gk d t cn s = Inr s'"
    have c: "sched_covers days ts (mgr s)"
      using sched_covers_grow[OF cov] P by blast
    show "?P s'"
      using grid_inv_place(1)[OF _ pl] manager_inv_place[OF _ pl] backed_place[OF _ pl cn c] P
      by blast
  qed
  then show "frame M M'" and "bookings_grow p days ts cn M M'" and "backed cn M' G"
    by blast+
qed

subsection \<open>The loop over the classes\<close>

lemma process_classes_rule:
  assumes "process_classes p days ts cs M files g = Inr (M', files', g')" and "I M"
    and "\<And>c Ma ga G Mb gb. c \<in> set cs \<Longrightarrow> I Ma \<Longrightarrow>
            process_class p days ts c Ma ga = Inr (G, Mb, gb) \<Longrightarrow>
            I (Mb\<lparr>timetable_cache := AList.update c G (timetable_cache Mb)\<rparr>)"
  shows "I M'"
  using assms
proof (induction cs arbitrary: M files g)
  case Nil
  then show ?case by simp
next
  case (Cons c cs)
  from Cons.prems(1) obtain G Mb gb where pc: "process_class p days ts c M g = Inr (G, Mb, gb)"
    and rest: "process_classes p days ts cs
                 (Mb\<lparr>timetable_cache := AList.update c G (timetable_cache Mb)\<rparr>)
                 (files @ [csv_name c]) gb = Inr (M', files', g')"
    by (auto split: sum.splits prod.splits)
  have "I (Mb\<lparr>timetable_cache := AList.update c G (timetable_cache Mb)\<rparr>)"
    using Cons.prems(3)[of c M g G Mb gb] Cons.prems(2) pc by simp
  then show ?case
    by (rule Cons.IH[OF rest]) (use Cons.prems(3) in auto)
qed

lemma set_alist_update: "set (AList.update k v al) \<subseteq> insert (k, v) (set al)"
  by (induction al) auto

lemma booking_cache_update [simp]:
  "booking (M\<lparr>timetable_cache := x\<rparr>) = booking M"
  by (simp add: booking_def fun_eq_iff)

lemma backed_stable:
  assumes "backed c M G" and "c \<noteq> []" and "bookings_grow p days ts cn M M'"
  shows "backed c M' G"
  unfolding backed_def
proof (intro allI impI)
  fix t d v assume "cell G t d = Some v"
  then have "v = [] \<or> v = LUNCH_BREAK \<or> (\<exists>subj. v = subj @ '' (TBD)'') \<or>
        (\<exists>subj n. v = subj @ '' ('' @ n @ '')'' \<and> booking M n d t = Some c)"
    using assms(1) unfolding backed_def by blast
  moreover have "\<And>n. booking M n d t = Some c \<Longrightarrow> booking M' n d t = Some c"
    using assms(2,3) unfolding bookings_grow_def by (metis option.inject)
  ultimately show "v = [] \<or> v = LUNCH_BREAK \<or> (\<exists>subj. v = subj @ '' (TBD)'') \<or>
        (\<exists>subj n. v = subj @ '' ('' @ n @ '')'' \<and> booking M' n d t = Some c)"
    by blast
qed

lemma run_inv_step:
  assumes dd: "distinct days" and inv: "run_inv p days ts M0 Ma" and c: "c \<noteq> []"
    and pc: "process_class p days ts c Ma ga = Inr (G, Mb, gb)"
  shows "run_inv p days ts M0 (Mb\<lparr>timetable_cache := AList.update c G (timetable_cache Mb)\<rparr>)"
proof -
  have cov: "sched_covers days ts Ma" using inv by (simp add: run_inv_def)
  note eff = process_class_effect[OF dd pc c cov]
  have fr: "frame Ma Mb" and bg: "bookings_grow p days ts c Ma Mb" and bk: "backed c Mb G"
    using eff by auto
  have gok: "grid_ok p days ts G"
    unfolding grid_ok_def using process_class_grid[OF dd pc] by blast
  have cov': "sched_covers days ts Mb" using sched_covers_grow[OF cov fr bg] .
  have 1: "\<forall>n d t. booking Mb n d t = booking M0 n d t \<or>
              (booking M0 n d t = Some [] \<and> d \<in> set days \<and> t \<in> set (start_pool p ts d))"
  proof (intro allI)
    fix n d t
    have a: "booking Ma n d t = booking M0 n d t \<or>
              (booking M0 n d t = Some [] \<and> d \<in> set days \<and> t \<in> set (start_pool p ts d))"
      using inv unfolding run_inv_def by blast
    have b: "booking Mb n d t = booking Ma n d t \<or>
              (booking Ma n d t = Some [] \<and> booking Mb n d t = Some c \<and>
               d \<in> set days \<and> t \<in> set (start_pool p ts d))"
      using bg unfolding bookings_grow_def by blast
    show "booking Mb n d t = booking M0 n d t \<or>
              (booking M0 n d t = Some [] \<and> d \<in> set days \<and> t \<in> set (start_pool p ts d))"
      using a b by auto
  qed
  have old: "\<forall>(c', G') \<in> set (timetable_cache Ma).
                c' \<noteq> [] \<and> grid_ok p days ts G' \<and> backed c' Ma G'"
    using inv unfolding run_inv_def by blast
  have 2: "\<forall>(c', G') \<in> set (AList.update c G (timetable_cache Mb)).
             c' \<noteq> [] \<and> grid_ok p days ts G' \<and> backed c' Mb G'"
  proof (intro ballI, clarify)
    fix c' G' assume "(c', G') \<in> set (AList.update c G (timetable_cache Mb))"
    then have "(c', G') = (c, G) \<or> (c', G') \<in> set (timetable_cache Ma)"
      using fr set_alist_update[of c G "timetable_cache Mb"] by (auto simp: frame_def)
    then show "c' \<noteq> [] \<and> grid_ok p days ts G' \<and> backed c' Mb G'"
    proof
      assume "(c', G') = (c, G)"
      then show ?thesis using c gok bk by simp
    next
      assume m: "(c', G') \<in> set (timetable_cache Ma)"
      then have o: "c' \<noteq> [] \<and> grid_ok p days ts G' \<and> backed c' Ma G'" using old by auto
      then show ?thesis using backed_stable[OF _ _ bg] by blast
    qed
  qed
  show ?thesis
    unfolding run_inv_def
    using inv fr cov' 1 2
    by (simp add: run_inv_def frame_def sched_covers_def backed_def)
qed

subsection \<open>A complete run\<close>

lemma distinct_days_of: "distinct (days_of p)"
  by (simp add: days_of_def WEEKDAYS_def)

lemma class_label_nonempty: "class_label i sec \<noteq> []"
  by (simp add: class_label_def)

lemma classes_of_nonempty: "c \<in> set (classes_of secs) \<Longrightarrow> c \<noteq> []"
  by (auto simp: classes_of_def class_label_nonempty)

lemma booking_run_start:
  "booking (run_start M days ts) n d t =
     (if n \<in> fst ` set (teachers M) \<and> d \<in> set days \<and> t \<in> set ts then Some [] else None)"
proof -
  have "map_of (teachers (run_start M days ts)) n =
          map_option (\<lambda>T. initialize_schedule T days ts) (map_of (teachers M) n)"
    by (simp add: run_start_def map_of_map)
  moreover have "n \<in> fst ` set (teachers M) \<longleftrightarrow> map_of (teachers M) n \<noteq> None"
    by (metis domIff dom_map_of_conv_image_fst)
  ultimately show ?thesis
    by (auto simp: booking_def cell_def initialize_schedule_def split: option.splits)
qed

lemma keys_run_start: "map fst (teachers (run_start M days ts)) = map fst (teachers M)"
  by (simp add: run_start_def comp_def case_prod_unfold)

lemma run_inv_start: "run_inv p days ts (run_start M days ts) (run_start M days ts)"
proof -
  have "sched_covers days ts (run_start M days ts)"
    unfolding sched_covers_def
    using booking_run_start[of M days ts] keys_run_start[of M days ts]
    by (metis (no_types, lifting) list.set_map option.distinct(1))
  then show ?thesis by (simp add: run_inv_def run_start_def)
qed

lemma time_slots_of_Inl:
  "time_slots_of p = Inl st \<Longrightarrow> st \<noteq> Generation_Complete \<and> (\<forall>n. st \<noteq> Expected_48_Classes n)"
  by (auto simp: time_slots_of_def split: option.splits if_splits)

lemma generate_complete:
  assumes "generate_timetable M p g = (Generation_Complete, files, M')"
  shows "\<exists>ts M3 fs g3 scheds.
           time_slots_of p = Inr ts \<and>
           length (classes_of (take 4 (selected_sections p))) = 48 \<and>
           process_classes p (days_of p) ts (classes_of (take 4 (selected_sections p)))
             (run_start M (days_of p) ts) [] g = Inr (M3, fs, g3) \<and>
           teacher_schedules (teachers M3) (days_of p) ts = Some scheds \<and>
           files = fs @ map (\<lambda>(n, G). csv_name (''Teacher_'' @ n)) scheds \<and>
           M' = M3\<lparr>teacher_timetable :=
                     foldl (\<lambda>c (n, G). AList.update n G c) (teacher_timetable M3) scheds\<rparr>"
  using assms
  by (auto simp: generate_timetable_def Let_def run_start_def
           split: sum.splits if_splits option.splits prod.splits dest: time_slots_of_Inl)

lemma run_inv_classes:
  assumes "process_classes p (days_of p) ts (classes_of secs) (run_start M (days_of p) ts) fs0 g
             = Inr (M3, fs, g3)"
  shows "run_inv p (days_of p) ts (run_start M (days_of p) ts) M3"
  by (rule process_classes_rule
        [where I = "run_inv p (days_of p) ts (run_start M (days_of p) ts)", OF assms run_inv_start])
     (rule run_inv_step[OF distinct_days_of], auto dest: classes_of_nonempty)

lemma booking_teacher_timetable_update [simp]:
  "booking (M\<lparr>teacher_timetable := x\<rparr>) = booking M"
  by (simp add: booking_def fun_eq_iff)

lemma generate_run_inv:
  assumes "generate_timetable M p g = (Generation_Complete, files, M')"
    and "time_slots_of p = Inr ts"
  shows "\<exists>M3. run_inv p (days_of p) ts (run_start M (days_of p) ts) M3 \<and>
           timetable_cache M' = timetable_cache M3 \<and> teachers M' = teachers M3 \<and>
           booking M' = booking M3"
proof -
  from generate_complete[OF assms(1)] assms(2) obtain M3 fs g3 scheds where
      pc: "process_classes p (days_of p) ts (classes_of (take 4 (selected_sections p)))
             (run_start M (days_of p) ts) [] g = Inr (M3, fs, g3)"
    and M': "M' = M3\<lparr>teacher_timetable :=
                     foldl (\<lambda>c (n, G). AList.update n G c) (teacher_timetable M3) scheds\<rparr>"
    by auto
  have "run_inv p (days_of p) ts (run_start M (days_of p) ts) M3"
    by (rule run_inv_classes[OF pc])
  then show ?thesis using M' by auto
qed

lemma cached_grid_ok:
  assumes "generate_timetable M p g = (Generation_Complete, files, M')"
    and "time_slots_of p = Inr ts" and "(c, G) \<in> set (timetable_cache M')"
  shows "grid_ok p (days_of p) ts G" and "backed c M' G" and "c \<noteq> []"
proof -
  from generate_run_inv[OF assms(1,2)] obtain M3 where
      inv: "run_inv p (days_of p) ts (run_start M (days_of p) ts) M3"
    and eq: "timetable_cache M' = timetable_cache M3" "booking M' = booking M3"
    by blast
  have "c \<noteq> [] \<and> grid_ok p (days_of p) ts G \<and> backed c M3 G"
    using inv assms(3) eq(1) unfolding run_inv_def by auto
  then show "grid_ok p (days_of p) ts G" and "backed c M' G" and "c \<noteq> []"
    using eq(2) by (simp_all add: backed_def)
qed

lemma in_start_pool:
  assumes "t \<in> set ts" and "t \<noteq> lunch_time p"
  shows "t \<in> set (start_pool p ts d) \<longleftrightarrow>
           \<not> (saturday_option p = ''Half Day'' \<and> d = ''Saturday'' \<and>
              t \<notin> set (take (length ts div 2) ts))"
  using assms by (auto simp: start_pool_def open_slots_def)

lemma start_grid_cell:
  "t \<in> set ts \<Longrightarrow> d \<in> set days \<Longrightarrow>
     cell (start_grid p days ts) t d = Some (if t = lunch_time p then LUNCH_BREAK else [])"
  by (simp add: cell_def start_grid_def)

lemma LUNCH_BREAK_nonempty: "LUNCH_BREAK \<noteq> []"
  by (simp add: LUNCH_BREAK_def)

text \<open>
  C4, as amended. In a complete run, every cell of every class grid for a slot and a day
  of the run is present. It holds a non-empty label, with one exception: under
  \<open>Half Day\<close> the Saturday cells of the slots that are not among the first half of the
  slots and are not the lunch slot are present too, and hold the empty string.
\<close>

theorem class_grid_cells:
  assumes "generate_timetable M p g = (Generation_Complete, files, M')"
    and "time_slots_of p = Inr ts" and "(c, G) \<in> set (timetable_cache M')"
    and "t \<in> set ts" and "d \<in> set (days_of p)"
  shows "\<exists>v. cell G t d = Some v \<and>
           (v = [] \<longleftrightarrow> saturday_option p = ''Half Day'' \<and> d = ''Saturday'' \<and>
                        t \<notin> set (take (length ts div 2) ts) \<and> t \<noteq> lunch_time p)"
proof -
  have ok: "grid_ok p (days_of p) ts G" using cached_grid_ok(1)[OF assms(1,2,3)] .
  show ?thesis
  proof (cases "t \<in> set (start_pool p ts d)")
    case True
    then obtain subj n where v: "cell G t d = Some (subj @ '' ('' @ n @ '')'')"
      using ok assms(5) unfolding grid_ok_def by blast
    have "t \<noteq> lunch_time p \<longrightarrow> \<not> (saturday_option p = ''Half Day'' \<and> d = ''Saturday'' \<and>
              t \<notin> set (take (length ts div 2) ts))"
      using True in_start_pool[OF assms(4)] by blast
    then show ?thesis using v by auto
  next
    case False
    then have v: "cell G t d = Some (if t = lunch_time p then LUNCH_BREAK else [])"
      using ok start_grid_cell[OF assms(4,5)] unfolding grid_ok_def by simp
    have "t \<noteq> lunch_time p \<longrightarrow> (saturday_option p = ''Half Day'' \<and> d = ''Saturday'' \<and>
              t \<notin> set (take (length ts div 2) ts))"
      using False in_start_pool[OF assms(4)] by blast
    then show ?thesis using v LUNCH_BREAK_nonempty by auto
  qed
qed

subsection \<open>No exception in a run\<close>

lemma assign_teacher_succeeds:
  assumes "index_ok M"
  shows "\<exists>n M' g'. assign_teacher M subj gk d t cn g = Inr (n, M', g')"
proof -
  let ?names = "case subject_grade_teachers M (subj, gk) of None \<Rightarrow> [] | Some ns \<Rightarrow> ns"
  have reg: "\<forall>n \<in> set ?names. map_of (teachers M) n \<noteq> None"
  proof
    fix n assume "n \<in> set ?names"
    then obtain ns where "subject_grade_teachers M (subj, gk) = Some ns" "n \<in> set ns"
      by (cases "subject_grade_teachers M (subj, gk)") auto
    then have "n \<in> fst ` set (teachers M)"
      using assms unfolding index_ok_def by blast
    then show "map_of (teachers M) n \<noteq> None"
      by (metis domIff dom_map_of_conv_image_fst)
  qed
  then obtain av where av: "get_available_teachers M subj gk d t = Some av"
    and sub: "set av \<subseteq> set ?names"
    by (auto simp: get_available_teachers_def Let_def)
  show ?thesis
  proof (cases "av = []")
    case True
    then show ?thesis using av by (simp add: assign_teacher_def)
  next
    case False
    then obtain n g' where c: "choice av g = Some (n, g')" using choice_succeeds by blast
    have "n \<in> set av" using c by (rule choice_Some)
    then have "n \<in> set ?names" using sub by (rule subsetD[rotated])
    then obtain T where "map_of (teachers M) n = Some T" using reg by auto
    then show ?thesis using av False c by (simp add: assign_teacher_def)
  qed
qed

lemma index_ok_frame: "index_ok M \<Longrightarrow> frame M M' \<Longrightarrow> index_ok M'"
  unfolding index_ok_def frame_def by (metis list.set_map)

lemma place_succeeds:
  assumes "opts \<noteq> []" and "index_ok (mgr s)" and "timetable s t \<noteq> None"
    and "t \<in> set (pool_of s d)"
  shows "\<exists>s'. place opts gk d t cn s = Inr s'"
proof -
  obtain subj g1 where c: "choice opts (source s) = Some (subj, g1)"
    using choice_succeeds[OF assms(1)] by blast
  obtain n M' g' where a: "assign_teacher (mgr s) subj gk d t cn g1 = Inr (n, M', g')"
    using assign_teacher_succeeds[OF assms(2)] by blast
  obtain tt' where sc: "set_cell (timetable s) t d (subj @ '' ('' @ n @ '')'') = Some tt'"
    using assms(3) by (auto simp: set_cell_def)
  obtain av' where pr: "pool_remove (available_slots s) d t = Some av'"
    using assms(4) by (cases "available_slots s d") (auto simp: pool_remove_def pool_of_def)
  show ?thesis using c a sc pr by (simp add: place_def)
qed

lemma place_keeps:
  assumes "place opts gk d t cn s = Inr s'"
  shows "index_ok (mgr s) \<Longrightarrow> index_ok (mgr s')"
    and "timetable s t' \<noteq> None \<Longrightarrow> timetable s' t' \<noteq> None"
    and "pool_of s' d' = (if d' = d then remove1 t (pool_of s d) else pool_of s d')"
    and "t \<in> set (pool_of s d)"
proof -
  from place_cases[OF assms] obtain subj n g1 where
      at: "assign_teacher (mgr s) subj gk d t cn g1 = Inr (n, mgr s', source s')"
    and sc: "set_cell (timetable s) t d (subj @ '' ('' @ n @ '')'') = Some (timetable s')"
    and pr: "pool_remove (available_slots s) d t = Some (available_slots s')"
    by blast
  have "frame (mgr s) (mgr s')" using assign_teacher_frame[OF at] by (simp add: frame_def)
  then show "index_ok (mgr s) \<Longrightarrow> index_ok (mgr s')" using index_ok_frame by blast
  from sc obtain row where
    "timetable s' = (timetable s)(t \<mapsto> row(d \<mapsto> subj @ '' ('' @ n @ '')''))"
    by (cases "timetable s t") (auto simp: set_cell_def eq_commute)
  then show "timetable s t' \<noteq> None \<Longrightarrow> timetable s' t' \<noteq> None"
    by simp
  from pool_remove_Some[OF pr]
  show "pool_of s' d' = (if d' = d then remove1 t (pool_of s d) else pool_of s d')"
    and "t \<in> set (pool_of s d)"
    by (auto simp: pool_of_def)
qed

lemma count_list_remove1:
  "count_list (remove1 x xs) y = (if x = y \<and> x \<in> set xs then count_list xs y - 1 else count_list xs y)"
  by (induction xs) auto

lemma fill_cells_succeeds:
  assumes "opts \<noteq> []" and "index_ok (mgr s)" and "\<forall>(d, t) \<in> set ps. timetable s t \<noteq> None"
    and "\<forall>d t. count_list ps (d, t) \<le> count_list (pool_of s d) t"
  shows "\<exists>s'. fill_cells opts gk cn ps s = Inr s'"
  using assms(2,3,4)
proof (induction ps arbitrary: s)
  case Nil
  then show ?case by simp
next
  case (Cons a ps)
  obtain d t where a: "a = (d, t)" by (cases a)
  have "1 \<le> count_list (pool_of s d) t" using Cons.prems(3)[rule_format, of d t] by (simp add: a)
  then have tin: "t \<in> set (pool_of s d)" by (metis count_notin not_one_le_zero)
  have tt: "timetable s t \<noteq> None" using Cons.prems(2) by (simp add: a)
  obtain s1 where s1: "place opts gk d t cn s = Inr s1"
    using place_succeeds[OF assms(1) Cons.prems(1) tt tin] by blast
  note k = place_keeps[OF s1]
  have 1: "index_ok (mgr s1)" using k(1) Cons.prems(1) by blast
  have 2: "\<forall>(d, t) \<in> set ps. timetable s1 t \<noteq> None" using k(2) Cons.prems(2) by auto
  have 3: "\<forall>d' t'. count_list ps (d', t') \<le> count_list (pool_of s1 d') t'"
  proof (intro allI)
    fix d' t'
    have "count_list (a # ps) (d', t') \<le> count_list (pool_of s d') t'"
      using Cons.prems(3) by blast
    then show "count_list ps (d', t') \<le> count_list (pool_of s1 d') t'"
      using tin by (auto simp: k(3) a count_list_remove1 split: if_splits)
  qed
  obtain s' where "fill_cells opts gk cn ps s1 = Inr s'" using Cons.IH[OF 1 2 3] by blast
  then show ?case using s1 by (simp add: a)
qed

lemma count_list_drop_nth:
  "i < length xs \<Longrightarrow>
     count_list (take i xs @ drop (Suc i) xs) x + (if xs ! i = x then 1 else 0) = count_list xs x"
proof -
  assume "i < length xs"
  then have "xs = take i xs @ xs ! i # drop (Suc i) xs" by (rule id_take_nth_drop)
  then have "count_list xs x = count_list (take i xs @ xs ! i # drop (Suc i) xs) x" by simp
  then show ?thesis by simp
qed

lemma sample_count:
  "sample xs k g = Some (ys, g') \<Longrightarrow> count_list ys x \<le> count_list xs x"
proof (induction k arbitrary: xs g ys)
  case 0
  then show ?case by simp
next
  case (Suc k)
  obtain r g1 where d: "draw g = (r, g1)" by (cases "draw g")
  let ?i = "r mod length xs"
  from Suc.prems have ne: "xs \<noteq> []" by (auto split: if_splits)
  then have i: "?i < length xs" by simp
  from Suc.prems ne d obtain zs where
      z: "sample (take ?i xs @ drop (Suc ?i) xs) k g1 = Some (zs, g')"
    and ys: "ys = xs ! ?i # zs"
    by (auto split: option.splits prod.splits)
  have "count_list zs x \<le> count_list (take ?i xs @ drop (Suc ?i) xs) x"
    by (rule Suc.IH[OF z])
  then show ?case using count_list_drop_nth[OF i, of x] by (auto simp: ys)
qed

lemma sample_succeeds: "k \<le> length xs \<Longrightarrow> \<exists>ys g'. sample xs k g = Some (ys, g')"
proof (induction k arbitrary: xs g)
  case 0
  then show ?case by simp
next
  case (Suc k)
  obtain r g1 where d: "draw g = (r, g1)" by (cases "draw g")
  let ?i = "r mod length xs"
  have ne: "xs \<noteq> []" using Suc.prems by auto
  then have i: "?i < length xs" by simp
  have "k \<le> length (take ?i xs @ drop (Suc ?i) xs)" using Suc.prems i by auto
  then obtain zs g2 where "sample (take ?i xs @ drop (Suc ?i) xs) k g1 = Some (zs, g2)"
    using Suc.IH by blast
  then show ?case using ne d by simp
qed

lemma count_list_map_Pair:
  "count_list (map (Pair d) xs) (d', t) = (if d' = d then count_list xs t else 0)"
  by (induction xs) auto

lemma all_slots_count:
  assumes "distinct days" and "\<forall>d \<in> set days. available_slots s d \<noteq> None"
  shows "\<exists>ps. all_slots (available_slots s) days = Some ps \<and>
           (\<forall>d t. count_list ps (d, t) = (if d \<in> set days then count_list (pool_of s d) t else 0))"
  using assms
proof (induction days)
  case Nil
  then show ?case by simp
next
  case (Cons a days)
  obtain xs where xs: "available_slots s a = Some xs" using Cons.prems(2) by auto
  obtain ps where ps: "all_slots (available_slots s) days = Some ps"
    and c: "\<forall>d t. count_list ps (d, t) = (if d \<in> set days then count_list (pool_of s d) t else 0)"
    using Cons.IH Cons.prems by auto
  have "all_slots (available_slots s) (a # days) = Some (map (Pair a) xs @ ps)"
    using xs ps by simp
  moreover have "\<forall>d t. count_list (map (Pair a) xs @ ps) (d, t) =
                   (if d \<in> set (a # days) then count_list (pool_of s d) t else 0)"
    using c xs Cons.prems(1) by (auto simp: count_list_map_Pair pool_of_def)
  ultimately show ?case by blast
qed

lemma succ_inv_place:
  "succ_inv p days ts s \<Longrightarrow> place opts gk d t cn s = Inr s' \<Longrightarrow> succ_inv p days ts s'"
  unfolding succ_inv_def
  using grid_inv_place(1)[of p days ts s opts gk d t cn s']
    place_keeps(1,2)[of opts gk d t cn s s'] by auto

lemma succ_inv_source [simp]: "succ_inv p days ts (s\<lparr>source := g\<rparr>) = succ_inv p days ts s"
  by (simp add: succ_inv_def)

lemma succ_inv_pool:
  assumes "succ_inv p days ts s"
  shows "d \<in> set days \<Longrightarrow> available_slots s d \<noteq> None"
    and "t \<in> set (pool_of s d) \<Longrightarrow> timetable s t \<noteq> None"
proof -
  have pools: "\<forall>d. case available_slots s d of
             None \<Rightarrow> d \<notin> set days
           | Some xs \<Rightarrow> d \<in> set days \<and> set xs \<subseteq> set (start_pool p ts d)"
    using assms by (simp add: succ_inv_def grid_inv_def)
  show "d \<in> set days \<Longrightarrow> available_slots s d \<noteq> None"
    using pools[rule_format, of d] by (auto split: option.splits)
  assume "t \<in> set (pool_of s d)"
  then have "t \<in> set (start_pool p ts d)"
    using pools[rule_format, of d] by (auto simp: pool_of_def split: option.splits)
  then have "t \<in> set ts" using start_pool_subset by blast
  then show "timetable s t \<noteq> None" using assms by (simp add: succ_inv_def)
qed

lemma fill_cells_succ:
  assumes "opts \<noteq> []" and "succ_inv p days ts s"
    and "\<forall>d t. count_list ps (d, t) \<le> count_list (pool_of s d) t"
  shows "\<exists>s'. fill_cells opts gk cn ps s = Inr s' \<and> succ_inv p days ts s'"
proof -
  have "\<forall>(d, t) \<in> set ps. timetable s t \<noteq> None"
  proof (clarify)
    fix d t y assume "(d, t) \<in> set ps"
    then have "count_list ps (d, t) \<noteq> 0" by (simp add: count_list_0_iff)
    then have "count_list (pool_of s d) t \<noteq> 0" using assms(3)[rule_format, of d t] by simp
    then have "t \<in> set (pool_of s d)" by (simp add: count_list_0_iff)
    then show "\<exists>y. timetable s t = Some y" using succ_inv_pool(2)[OF assms(2)] by auto
  qed
  moreover have "index_ok (mgr s)" using assms(2) by (simp add: succ_inv_def)
  ultimately have "\<exists>s'. fill_cells opts gk cn ps s = Inr s'"
    using fill_cells_succeeds[OF assms(1) _ _ assms(3), of gk cn] by blast
  then obtain s' where f: "fill_cells opts gk cn ps s = Inr s'" by blast
  have "succ_inv p days ts s'"
    by (rule fill_cells_rule[where P = "succ_inv p days ts", OF f assms(2)])
       (rule succ_inv_place)
  then show ?thesis using f by blast
qed

lemma fill_core_succ:
  assumes "core \<noteq> []"
  shows "succ_inv p days ts s \<Longrightarrow> set ds \<subseteq> set days \<Longrightarrow>
           \<exists>s'. fill_core core gk cn ds s = Inr s'"
proof (induction ds arbitrary: s)
  case Nil
  then show ?case by simp
next
  case (Cons d ds)
  obtain xs where xs: "available_slots s d = Some xs"
    using succ_inv_pool(1)[OF Cons.prems(1), of d] Cons.prems(2) by auto
  have "\<forall>d' t. count_list (map (Pair d) xs) (d', t) \<le> count_list (pool_of s d') t"
    using xs by (simp add: count_list_map_Pair pool_of_def)
  then obtain s1 where s1: "fill_cells core gk cn (map (Pair d) xs) s = Inr s1"
    and inv: "succ_inv p days ts s1"
    using fill_cells_succ[OF assms Cons.prems(1)] by blast
  obtain s' where "fill_core core gk cn ds s1 = Inr s'"
    using Cons.IH[OF inv] Cons.prems(2) by auto
  then show ?case using xs s1 by simp
qed

lemma pool_of_source [simp]: "pool_of (s\<lparr>source := g\<rparr>) = pool_of s"
  by (simp add: pool_of_def fun_eq_iff)

lemma place_activities_succ:
  assumes ac: "py_int (activity_count p) = Some n" and dd: "distinct days"
    and inv: "succ_inv p days ts s"
  shows "\<exists>s'. place_activities p days ts gk cn s = Inr s' \<and> succ_inv p days ts s'"
proof (cases "activity_subjects p \<noteq> [] \<and> min n (int (length days * length ts)) > 0")
  case False
  then show ?thesis using ac inv by (auto simp: place_activities_def Let_def)
next
  case True
  let ?count = "min n (int (length days * length ts))"
  have "\<forall>d \<in> set days. available_slots s d \<noteq> None"
    using succ_inv_pool(1)[OF inv] by blast
  then obtain ps where ps: "all_slots (available_slots s) days = Some ps"
    and c: "\<forall>d t. count_list ps (d, t) = (if d \<in> set days then count_list (pool_of s d) t else 0)"
    using all_slots_count[OF dd] by blast
  have "nat (min ?count (int (length ps))) \<le> length ps" by simp
  then obtain sl g' where sl: "sample ps (nat (min ?count (int (length ps)))) (source s) = Some (sl, g')"
    using sample_succeeds by blast
  have "\<forall>d t. count_list sl (d, t) \<le> count_list (pool_of (s\<lparr>source := g'\<rparr>) d) t"
  proof (intro allI)
    fix d t
    have "count_list sl (d, t) \<le> count_list ps (d, t)" by (rule sample_count[OF sl])
    then show "count_list sl (d, t) \<le> count_list (pool_of (s\<lparr>source := g'\<rparr>) d) t"
      using c by (auto split: if_splits)
  qed
  then obtain s' where "fill_cells (activity_subjects p) gk cn sl (s\<lparr>source := g'\<rparr>) = Inr s'"
    and "succ_inv p days ts s'"
    using fill_cells_succ[of "activity_subjects p" p days ts "s\<lparr>source := g'\<rparr>" sl gk cn] True inv
    by auto
  then show ?thesis using ac True ps sl by (auto simp: place_activities_def Let_def)
qed

lemma grade_table:
  "map (\<lambda>i. (py_str i, ''1-5'')) [1..5] @ map (\<lambda>i. (py_str i, ''6-8'')) [6..8] @
   map (\<lambda>i. (py_str i, ''9-10'')) [9..10] @ map (\<lambda>i. (py_str i, ''11-12 Science'')) [11..12] =
   [(''1'', ''1-5''), (''2'', ''1-5''), (''3'', ''1-5''), (''4'', ''1-5''), (''5'', ''1-5''),
    (''6'', ''6-8''), (''7'', ''6-8''), (''8'', ''6-8''), (''9'', ''9-10''), (''10'', ''9-10''),
    (''11'', ''11-12 Science''), (''12'', ''11-12 Science'')]"
  by code_simp

lemma GRADE_MAPPING_eq:
  "GRADE_MAPPING = map_of
   [(''1'', ''1-5''), (''2'', ''1-5''), (''3'', ''1-5''), (''4'', ''1-5''), (''5'', ''1-5''),
    (''6'', ''6-8''), (''7'', ''6-8''), (''8'', ''6-8''), (''9'', ''9-10''), (''10'', ''9-10''),
    (''11'', ''11-12 Science''), (''12'', ''11-12 Science'')]"
  unfolding GRADE_MAPPING_def grade_table by (rule refl)

lemma core_subjects_exist:
  "\<exists>core. NCERT_SUBJECTS (get_grade_key grade) = Some core \<and> core \<noteq> []"
  by (simp add: get_grade_key_def GRADE_MAPPING_eq NCERT_SUBJECTS_def)

lemma grade_strings:
  "map py_str [1..12] = map (\<lambda>c. [c]) ''123456789'' @ [''10'', ''11'', ''12'']"
  by code_simp

lemma class_label_words:
  assumes "i \<in> set [1..12]"
  shows "\<exists>r. split_ws [] (class_label i sec) = ''Grade'' # py_str i # r"
proof -
  have "py_str i \<in> set (map py_str [1..12])" using assms unfolding set_map by (rule imageI)
  then have "py_str i \<in> set (map (\<lambda>c. [c]) ''123456789'' @ [''10'', ''11'', ''12''])"
    by (simp only: grade_strings)
  then show ?thesis
    by (auto simp: class_label_def is_space_def)
qed


lemma classes_of_label:
  "c \<in> set (classes_of secs) \<Longrightarrow> \<exists>i \<in> set [1..12]. \<exists>sec \<in> set secs. c = class_label i sec"
  unfolding classes_of_def by auto

lemma class_start_rows:
  assumes "distinct days" and "days \<noteq> []" and "class_start p days ts = Some (tt, av)"
    and "t \<in> set ts"
  shows "tt t \<noteq> None"
proof -
  obtain d where d: "d \<in> set days" using assms(2) by (cases days) auto
  have "cell tt t d = cell (start_grid p days ts) t d"
    using class_start_eq[OF assms(1), of p ts] assms(3) by auto
  then have "cell tt t d \<noteq> None" using start_grid_cell[OF assms(4) d] by simp
  then show ?thesis by (cases "tt t") (auto simp: cell_def)
qed

lemma process_class_succ:
  assumes ac: "py_int (activity_count p) = Some n" and dd: "distinct days" and ne: "days \<noteq> []"
    and c: "c \<in> set (classes_of secs)" and ok: "index_ok M"
  shows "\<exists>G M' g'. process_class p days ts c M g = Inr (G, M', g')"
proof -
  obtain i sec where "i \<in> set [1..12]" and "c = class_label i sec"
    using classes_of_label[OF c] by blast
  then obtain r where w: "split_ws [] c = ''Grade'' # py_str i # r"
    using class_label_words by blast
  obtain tt av where cs: "class_start p days ts = Some (tt, av)"
    using class_start_eq[OF dd, of p ts] by blast
  let ?s1 = "\<lparr>timetable = tt, available_slots = av, mgr = M, source = g\<rparr>"
  have "succ_inv p days ts ?s1"
    using grid_inv_start[OF dd cs] ok class_start_rows[OF dd ne cs]
    by (simp add: succ_inv_def)
  then obtain s2 where s2: "place_activities p days ts (get_grade_key (py_str i)) c ?s1 = Inr s2"
    and inv2: "succ_inv p days ts s2"
    using place_activities_succ[OF ac dd] by blast
  obtain core where core: "NCERT_SUBJECTS (get_grade_key (py_str i)) = Some core" "core \<noteq> []"
    using core_subjects_exist by blast
  obtain s3 where "fill_core core (get_grade_key (py_str i)) c days s2 = Inr s3"
    using fill_core_succ[OF core(2) inv2, of days] by blast
  then show ?thesis using w cs s2 core by (simp add: process_class_def)
qed

lemma index_ok_cache_update [simp]:
  "index_ok (M\<lparr>timetable_cache := x\<rparr>) = index_ok M"
  by (simp add: index_ok_def)

lemma days_of_nonempty: "days_of p \<noteq> []"
  by (simp add: days_of_def WEEKDAYS_def)

lemma process_classes_succ:
  assumes ac: "py_int (activity_count p) = Some n"
  shows "set cs \<subseteq> set (classes_of secs) \<Longrightarrow> run_inv p (days_of p) ts M0 M \<Longrightarrow> index_ok M \<Longrightarrow>
           \<exists>M' fs' g'. process_classes p (days_of p) ts cs M fs g = Inr (M', fs', g') \<and>
              fs' = fs @ map csv_name cs \<and>
              (distinct cs \<longrightarrow> set cs \<inter> fst ` set (timetable_cache M) = {} \<longrightarrow>
                 map fst (timetable_cache M') = map fst (timetable_cache M) @ cs) \<and>
              map fst (teachers M') = map fst (teachers M)"
proof (induction cs arbitrary: M fs g)
  case Nil
  then show ?case by simp
next
  case (Cons c cs)
  have cin: "c \<in> set (classes_of secs)" using Cons.prems(1) by simp
  obtain G Mb gb where pc: "process_class p (days_of p) ts c M g = Inr (G, Mb, gb)"
    using process_class_succ[OF ac distinct_days_of days_of_nonempty cin Cons.prems(3)] by blast
  let ?M1 = "Mb\<lparr>timetable_cache := AList.update c G (timetable_cache Mb)\<rparr>"
  have cne: "c \<noteq> []" using classes_of_nonempty[OF cin] .
  have cov: "sched_covers (days_of p) ts M" using Cons.prems(2) by (simp add: run_inv_def)
  have fr: "frame M Mb" using process_class_effect(1)[OF distinct_days_of pc cne cov] .
  have inv1: "run_inv p (days_of p) ts M0 ?M1"
    using run_inv_step[OF distinct_days_of Cons.prems(2) cne pc] .
  have ok1: "index_ok ?M1" using index_ok_frame[OF Cons.prems(3) fr] by simp
  have sub: "set cs \<subseteq> set (classes_of secs)" using Cons.prems(1) by simp
  obtain M' fs' g' where
      r: "process_classes p (days_of p) ts cs ?M1 (fs @ [csv_name c]) gb = Inr (M', fs', g')"
    and f: "fs' = (fs @ [csv_name c]) @ map csv_name cs"
    and k: "distinct cs \<longrightarrow> set cs \<inter> fst ` set (timetable_cache ?M1) = {} \<longrightarrow>
              map fst (timetable_cache M') = map fst (timetable_cache ?M1) @ cs"
    and tk: "map fst (teachers M') = map fst (teachers ?M1)"
    using Cons.IH[OF sub inv1 ok1, of "fs @ [csv_name c]" gb] by blast
  have 1: "process_classes p (days_of p) ts (c # cs) M fs g = Inr (M', fs', g')"
    using pc r by simp
  have 2: "fs' = fs @ map csv_name (c # cs)" using f by simp
  have 3: "distinct (c # cs) \<longrightarrow> set (c # cs) \<inter> fst ` set (timetable_cache M) = {} \<longrightarrow>
             map fst (timetable_cache M') = map fst (timetable_cache M) @ c # cs"
  proof (intro impI)
    assume d: "distinct (c # cs)" and dj: "set (c # cs) \<inter> fst ` set (timetable_cache M) = {}"
    have cache: "timetable_cache Mb = timetable_cache M" using fr by (simp add: frame_def)
    have keys1: "map fst (timetable_cache ?M1) = map fst (timetable_cache M) @ [c]"
      using dj cache by (simp add: update_keys)
    then have "set cs \<inter> fst ` set (timetable_cache ?M1) = {}"
      using d dj by (auto simp flip: set_map)
    then show "map fst (timetable_cache M') = map fst (timetable_cache M) @ c # cs"
      using k d keys1 by simp
  qed
  have 4: "map fst (teachers M') = map fst (teachers M)"
    using tk fr by (simp add: frame_def)
  show ?case using 1 2 3 4 by blast
qed


lemma teacher_schedules_succ:
  assumes "\<forall>(n, T) \<in> set al. \<forall>d \<in> set days. \<forall>t \<in> set ts. cell (schedule T) d t \<noteq> None"
  shows "\<exists>scheds. teacher_schedules al days ts = Some scheds \<and> map fst scheds = map fst al"
  using assms
proof (induction al)
  case Nil
  then show ?case by simp
next
  case (Cons a al)
  obtain n T where a: "a = (n, T)" by (cases a)
  have "\<forall>d \<in> set days. \<forall>t \<in> set ts. cell (schedule T) d t \<noteq> None"
    using Cons.prems by (simp add: a)
  then have "\<forall>day \<in> set days. \<forall>slot \<in> set ts.
               (case schedule T day of None \<Rightarrow> False | Some row \<Rightarrow> row slot \<noteq> None)"
    by (auto simp: cell_def split: option.splits)
  then obtain G where G: "teacher_grid T days ts = Some G"
    by (simp add: teacher_grid_def)
  obtain scheds where "teacher_schedules al days ts = Some scheds" "map fst scheds = map fst al"
    using Cons.IH Cons.prems by auto
  then show ?case using G by (simp add: a)
qed

lemma foldl_update_keys:
  "distinct (map fst xs) \<Longrightarrow> set (map fst xs) \<inter> set (map fst acc) = {} \<Longrightarrow>
     map fst (foldl (\<lambda>c (n, G). AList.update n G c) acc xs) = map fst acc @ map fst xs"
proof (induction xs arbitrary: acc)
  case Nil
  then show ?case by simp
next
  case (Cons a xs)
  obtain n G where a: "a = (n, G)" by (cases a)
  have k: "map fst (AList.update n G acc) = map fst acc @ [n]"
    using Cons.prems(2) by (simp add: a update_keys)
  have "map fst (foldl (\<lambda>c (n, G). AList.update n G c) (AList.update n G acc) xs) =
          map fst (AList.update n G acc) @ map fst xs"
    by (rule Cons.IH) (use Cons.prems k a in auto)
  then show ?case using k by (simp add: a)
qed

lemma index_ok_run_start:
  assumes "index_ok M"
  shows "index_ok (run_start M days ts)"
proof -
  have 1: "subject_grade_teachers (run_start M days ts) = subject_grade_teachers M"
    by (simp add: run_start_def)
  have 2: "fst ` set (teachers (run_start M days ts)) = fst ` set (teachers M)"
    using keys_run_start[of M days ts] by (metis list.set_map)
  show ?thesis using assms unfolding index_ok_def 1 2 .
qed

lemma generate_unfold:
  assumes "time_slots_of p = Inr ts" and "length (classes_of (take 4 (selected_sections p))) = 48"
  shows "generate_timetable M p g =
     (case process_classes p (days_of p) ts (classes_of (take 4 (selected_sections p)))
                           (run_start M (days_of p) ts) [] g of
        Inl M' \<Rightarrow> (Error, [], M')
      | Inr (M3, files, g') \<Rightarrow>
          (case teacher_schedules (teachers M3) (days_of p) ts of
             None \<Rightarrow> (Error, [], M3)
           | Some scheds \<Rightarrow>
               (Generation_Complete,
                files @ map (\<lambda>(n, G). csv_name (''Teacher_'' @ n)) scheds,
                M3\<lparr>teacher_timetable :=
                     foldl (\<lambda>c (n, G). AList.update n G c) (teacher_timetable M3) scheds\<rparr>)))"
  using assms by (simp add: generate_timetable_def Let_def run_start_def)

lemma generate_succeeds:
  assumes wf: "wf_manager M" and ts: "time_slots_of p = Inr ts"
    and len: "4 \<le> length (selected_sections p)" and ac: "py_int (activity_count p) = Some n"
  shows "\<exists>files M'. generate_timetable M p g = (Generation_Complete, files, M') \<and>
           (distinct (classes_of (take 4 (selected_sections p))) \<longrightarrow>
              map fst (timetable_cache M') = classes_of (take 4 (selected_sections p))) \<and>
           map fst (teacher_timetable M') = map fst (teachers M) \<and>
           map fst (teachers M') = map fst (teachers M)"
proof -
  let ?cs = "classes_of (take 4 (selected_sections p))"
  let ?M2 = "run_start M (days_of p) ts"
  have l48: "length ?cs = 48" using len by (simp add: length_classes_of)
  have ok: "index_ok ?M2" using wf index_ok_run_start by (simp add: wf_manager_def)
  obtain M3 fs g3 where
      pc: "process_classes p (days_of p) ts ?cs ?M2 [] g = Inr (M3, fs, g3)"
    and keys: "distinct ?cs \<longrightarrow> set ?cs \<inter> fst ` set (timetable_cache ?M2) = {} \<longrightarrow>
                 map fst (timetable_cache M3) = map fst (timetable_cache ?M2) @ ?cs"
    and tk: "map fst (teachers M3) = map fst (teachers ?M2)"
    using process_classes_succ[OF ac subset_refl run_inv_start ok,
            where secs = "take 4 (selected_sections p)" and fs = "[]" and g = g]
    by blast
  have inv: "run_inv p (days_of p) ts ?M2 M3" by (rule run_inv_classes[OF pc])
  have tk': "map fst (teachers M3) = map fst (teachers M)" using tk keys_run_start by simp
  have dk: "distinct (map fst (teachers M3))" using wf tk' by (simp add: wf_manager_def)
  have cov: "sched_covers (days_of p) ts M3" using inv by (simp add: run_inv_def)
  have cells: "\<And>m T d t. (m, T) \<in> set (teachers M3) \<Longrightarrow> d \<in> set (days_of p) \<Longrightarrow>
                 t \<in> set ts \<Longrightarrow> cell (schedule T) d t \<noteq> None"
  proof -
    fix m T d t assume mT: "(m, T) \<in> set (teachers M3)" and d: "d \<in> set (days_of p)"
      and t: "t \<in> set ts"
    have "map_of (teachers M3) m = Some T" using dk mT by simp
    then have "booking M3 m d t = cell (schedule T) d t" by (simp add: booking_def)
    moreover have "m \<in> fst ` set (teachers M3)" using mT by force
    then have "booking M3 m d t \<noteq> None"
      using cov d t unfolding sched_covers_def by blast
    ultimately show "cell (schedule T) d t \<noteq> None" by simp
  qed
  have "\<forall>(m, T) \<in> set (teachers M3). \<forall>d \<in> set (days_of p). \<forall>t \<in> set ts.
           cell (schedule T) d t \<noteq> None"
    using cells by blast
  then obtain scheds where sc: "teacher_schedules (teachers M3) (days_of p) ts = Some scheds"
    and sk: "map fst scheds = map fst (teachers M3)"
    using teacher_schedules_succ by blast
  let ?M' = "M3\<lparr>teacher_timetable :=
                foldl (\<lambda>c (n, G). AList.update n G c) (teacher_timetable M3) scheds\<rparr>"
  have g: "generate_timetable M p g =
             (Generation_Complete, fs @ map (\<lambda>(n, G). csv_name (''Teacher_'' @ n)) scheds, ?M')"
    using generate_unfold[OF ts l48, of M g] pc sc by simp
  have tt0: "teacher_timetable M3 = []" using inv by (simp add: run_inv_def run_start_def)
  have 1: "map fst (teacher_timetable ?M') = map fst (teachers M)"
    using foldl_update_keys[of scheds "[]"] dk sk tk' tt0 by simp
  have 2: "distinct ?cs \<longrightarrow> map fst (timetable_cache ?M') = ?cs"
    using keys by (simp add: run_start_def)
  show ?thesis using g 1 2 tk' by simp
qed

subsection \<open>A run succeeds\<close>

lemma wf_init_manager: "wf_manager init_manager"
  by (simp add: wf_manager_def index_ok_def init_manager_def)

lemma keys_alist_update: "fst ` set (AList.update k v al) = insert k (fst ` set al)"
  by (induction al) auto

lemma add_teacher_accepts:
  assumes "\<not> (n = [] \<or> tx = [] \<or> gs = [])"
  shows "teachers (snd (add_teacher M n tx gs)) =
           AList.update n \<lparr>name = n, subjects = parse_subjects tx, grades = set gs,
                            schedule = Map.empty\<rparr> (teachers M)"
    and "subject_grade_teachers (snd (add_teacher M n tx gs)) key =
           (if fst key \<in> parse_subjects tx \<and> snd key \<in> set gs
            then Some (index_lookup M (fst key) (snd key) @ [n])
            else subject_grade_teachers M key)"
  using assms by (simp_all add: add_teacher_def Let_def index_lookup_def)


lemma wf_add_teacher:
  assumes "wf_manager M"
  shows "wf_manager (snd (add_teacher M n tx gs))"
proof (cases "n = [] \<or> tx = [] \<or> gs = []")
  case True
  then show ?thesis using assms by (simp add: add_teacher_def)
next
  case False
  note acc = add_teacher_accepts[OF False, of M]
  have d: "distinct (map fst (teachers (snd (add_teacher M n tx gs))))"
    using assms by (simp add: acc(1) wf_manager_def distinct_update)
  have keys: "fst ` set (teachers (snd (add_teacher M n tx gs))) = insert n (fst ` set (teachers M))"
    by (simp only: acc(1) keys_alist_update)
  have old: "\<And>s g. set (index_lookup M s g) \<subseteq> fst ` set (teachers M)"
  proof -
    fix s g
    show "set (index_lookup M s g) \<subseteq> fst ` set (teachers M)"
    proof (cases "subject_grade_teachers M (s, g)")
      case None
      then show ?thesis by (simp add: index_lookup_def)
    next
      case (Some ms)
      then have "set ms \<subseteq> fst ` set (teachers M)"
        using assms unfolding wf_manager_def index_ok_def by blast
      then show ?thesis using Some by (simp add: index_lookup_def)
    qed
  qed
  have "index_ok (snd (add_teacher M n tx gs))"
    unfolding index_ok_def
  proof (intro allI impI)
    fix key ns assume a: "subject_grade_teachers (snd (add_teacher M n tx gs)) key = Some ns"
    show "set ns \<subseteq> fst ` set (teachers (snd (add_teacher M n tx gs)))"
    proof (cases "fst key \<in> parse_subjects tx \<and> snd key \<in> set gs")
      case True
      then have "ns = index_lookup M (fst key) (snd key) @ [n]"
        using a by (simp add: acc(2))
      then show ?thesis using old[of "fst key" "snd key"] by (auto simp: keys)
    next
      case F: False
      then have "subject_grade_teachers M key = Some ns" using a by (auto simp: acc(2))
      then have "set ns \<subseteq> fst ` set (teachers M)"
        using assms unfolding wf_manager_def index_ok_def by blast
      then show ?thesis by (auto simp: keys)
    qed
  qed
  then show ?thesis using d by (simp add: wf_manager_def)
qed

lemma wf_example_manager: "wf_manager example_manager"
  unfolding example_manager_def by (rule wf_add_teacher[OF wf_init_manager])


lemma example_classes_distinct: "distinct (classes_of (take 4 [''A'', ''B'', ''C'', ''D'']))"
  by code_simp

lemma example_activity_count: "py_int ''1'' = Some 1"
  by code_simp



subsection \<open>The run on the starting values\<close>

lemma example_run_complete:
  "\<exists>files M'. example_run = (Generation_Complete, files, M') \<and>
     map fst (timetable_cache M') = classes_of [''A'', ''B'', ''C'', ''D'']"
proof -
  have ts: "time_slots_of example_params = Inr (create_time_slots 8 15 7)"
    using time_slots_of_ok[of example_params 8 15] example_parse by (simp add: example_params_def)
  have "\<exists>files M'. generate_timetable example_manager example_params [3, 1, 4]
                      = (Generation_Complete, files, M') \<and>
           (distinct (classes_of (take 4 (selected_sections example_params))) \<longrightarrow>
              map fst (timetable_cache M') = classes_of (take 4 (selected_sections example_params))) \<and>
           map fst (teacher_timetable M') = map fst (teachers example_manager) \<and>
           map fst (teachers M') = map fst (teachers example_manager)"
    by (rule generate_succeeds[OF wf_example_manager ts, of 1])
       (use example_activity_count in \<open>simp_all add: example_params_def\<close>)
  then show ?thesis
    using example_classes_distinct by (auto simp: example_run_def example_params_def)
qed

lemma cached_grid_in_cache:
  assumes "c \<in> fst ` set (timetable_cache M)"
  shows "(c, cached_grid M c) \<in> set (timetable_cache M)"
proof -
  obtain G where G: "map_of (timetable_cache M) c = Some G"
    using assms by (metis domIff dom_map_of_conv_image_fst not_Some_eq)
  then have "(c, G) \<in> set (timetable_cache M)" by (rule map_of_SomeD)
  then show ?thesis using G by (simp add: cached_grid_def)
qed

lemma example_class_listed: "''Grade 1 A'' \<in> set (classes_of [''A'', ''B'', ''C'', ''D''])"
  by code_simp

lemma example_grid_cached:
  "fst example_run = Generation_Complete"
  "(''Grade 1 A'', cached_grid (snd (snd example_run)) ''Grade 1 A'')
      \<in> set (timetable_cache (snd (snd example_run)))"
proof -
  obtain files M' where r: "example_run = (Generation_Complete, files, M')"
    and k: "map fst (timetable_cache M') = classes_of [''A'', ''B'', ''C'', ''D'']"
    using example_run_complete by blast
  show "fst example_run = Generation_Complete" by (simp only: r fst_conv)
  have "''Grade 1 A'' \<in> set (map fst (timetable_cache M'))"
    using example_class_listed by (simp only: k)
  then have "''Grade 1 A'' \<in> fst ` set (timetable_cache M')" by simp
  then show "(''Grade 1 A'', cached_grid (snd (snd example_run)) ''Grade 1 A'')
      \<in> set (timetable_cache (snd (snd example_run)))"
    using cached_grid_in_cache[of "''Grade 1 A''" M'] by (simp only: r snd_conv)
qed

lemma example_run_eq:
  "generate_timetable example_manager example_params [3, 1, 4] =
     (Generation_Complete, fst (snd example_run), snd (snd example_run))"
  using example_grid_cached(1) by (simp add: example_run_def prod_eq_iff)

theorem class_grid_cells_witness:
  "\<exists>v. cell (cached_grid (snd (snd example_run)) ''Grade 1 A'') ''8:00-8:50 AM'' ''Monday''
         = Some v \<and> v \<noteq> []"
  using class_grid_cells[OF example_run_eq example_time_slots example_grid_cached(2),
          of "''8:00-8:50 AM''" "''Monday''"]
  by (simp add: example_params_def days_of_def WEEKDAYS_def)

text \<open>
  The claim as stated fails under \<open>Half Day\<close>: in the run on the starting values the
  Saturday cell of the slot \<open>1:00-1:50 PM\<close>, a slot of the second half, is present in
  the grid of \<open>Grade 1 A\<close> and holds the empty string.
\<close>

theorem class_grid_cells_counterexample:
  "cell (cached_grid (snd (snd example_run)) ''Grade 1 A'') ''1:00-1:50 PM'' ''Saturday''
     = Some []"
proof -
  have ok: "grid_ok example_params (days_of example_params)
              [''8:00-8:50 AM'', ''9:00-9:50 AM'', ''10:00-10:50 AM'', ''11:00-11:50 AM'',
               ''12:00-12:50 PM'', ''1:00-1:50 PM'', ''2:00-2:50 PM'']
              (cached_grid (snd (snd example_run)) ''Grade 1 A'')"
    by (rule cached_grid_ok(1)[OF example_run_eq example_time_slots example_grid_cached(2)])
  have "''1:00-1:50 PM'' \<notin> set (start_pool example_params
              [''8:00-8:50 AM'', ''9:00-9:50 AM'', ''10:00-10:50 AM'', ''11:00-11:50 AM'',
               ''12:00-12:50 PM'', ''1:00-1:50 PM'', ''2:00-2:50 PM''] ''Saturday'')"
    by (simp add: start_pool_def open_slots_def example_params_def)
  then have "cell (cached_grid (snd (snd example_run)) ''Grade 1 A'') ''1:00-1:50 PM'' ''Saturday''
     = cell (start_grid example_params (days_of example_params)
              [''8:00-8:50 AM'', ''9:00-9:50 AM'', ''10:00-10:50 AM'', ''11:00-11:50 AM'',
               ''12:00-12:50 PM'', ''1:00-1:50 PM'', ''2:00-2:50 PM'']) ''1:00-1:50 PM'' ''Saturday''"
    using ok unfolding grid_ok_def by blast
  then show ?thesis
    by (simp add: cell_def start_grid_def example_params_def days_of_def WEEKDAYS_def)
qed

lemma example_cache_length: "length (timetable_cache (snd (snd example_run))) = 48"
proof -
  obtain files M' where r: "example_run = (Generation_Complete, files, M')"
    and k: "map fst (timetable_cache M') = classes_of [''A'', ''B'', ''C'', ''D'']"
    using example_run_complete by blast
  have "length (map fst (timetable_cache M')) = 48" by (simp only: k length_classes_of) simp
  then show ?thesis by (simp add: r)
qed

text \<open>
  The claim as stated fails: after the complete run on the starting values, a call whose
  end time equals its start time returns the validation status, and the class cache
  still holds the 48 grids of the earlier run.
\<close>

theorem validation_failure_keeps_caches_counterexample:
  "fst (generate_timetable (snd (snd example_run))
          (example_params\<lparr>end_time := ''8:00-8:50 AM''\<rparr>) []) = End_Must_Be_After_Start \<and>
   length (timetable_cache (snd (snd (generate_timetable (snd (snd example_run))
          (example_params\<lparr>end_time := ''8:00-8:50 AM''\<rparr>) [])))) = 48"
proof -
  have "time_slots_of (example_params\<lparr>end_time := ''8:00-8:50 AM''\<rparr>) = Inl End_Must_Be_After_Start"
    using example_parse by (simp add: time_slots_of_def example_params_def)
  then have "generate_timetable (snd (snd example_run))
          (example_params\<lparr>end_time := ''8:00-8:50 AM''\<rparr>) [] =
          (End_Must_Be_After_Start, [], snd (snd example_run))"
    by (rule generate_invalid)
  then show ?thesis using example_cache_length by simp
qed

subsection \<open>The outcome of one assignment\<close>

text \<open>
  C5, as amended. For every assignment that the loop body completes: if no teacher
  listed for the subject and grade band is free at the day and slot, the cell holds
  the subject followed by \<open>(TBD)\<close> and the manager is unchanged; otherwise the cell
  holds the subject followed by the name, in brackets, of one of the listed free
  teachers, only that teacher's entry changes, and the teacher's schedule cell at the
  day and slot, where the schedule has one, holds the class label.
\<close>

theorem placement_outcome:
  assumes "place opts gk d t cn s = Inr s'"
  shows "\<exists>subj av. subj \<in> set opts \<and>
           get_available_teachers (mgr s) subj gk d t = Some av \<and>
           (if av = []
            then cell (timetable s') t d = Some (subj @ '' (TBD)'') \<and> mgr s' = mgr s
            else \<exists>n \<in> set av. \<exists>T. map_of (teachers (mgr s)) n = Some T \<and>
                   cell (timetable s') t d = Some (subj @ '' ('' @ n @ '')'') \<and>
                   mgr s' = (mgr s)\<lparr>teachers :=
                              AList.update n (assign T d t cn) (teachers (mgr s))\<rparr> \<and>
                   (cell (schedule T) d t \<noteq> None \<longrightarrow>
                      booking (mgr s') n d t = Some cn))"
proof -
  from place_cases[OF assms] obtain subj n g1 where
      subj: "subj \<in> set opts"
    and at: "assign_teacher (mgr s) subj gk d t cn g1 = Inr (n, mgr s', source s')"
    and sc: "set_cell (timetable s) t d (subj @ '' ('' @ n @ '')'') = Some (timetable s')"
    by blast
  have c: "cell (timetable s') t d = Some (subj @ '' ('' @ n @ '')'')"
    using cell_set_cell[OF sc, of t d] by simp
  from assign_teacher_cases[OF at] show ?thesis
  proof (elim disjE exE conjE)
    assume "get_available_teachers (mgr s) subj gk d t = Some []" "n = ''TBD''" "mgr s' = mgr s"
    then show ?thesis using subj c by auto
  next
    fix av T
    assume av: "get_available_teachers (mgr s) subj gk d t = Some av" "n \<in> set av"
      and T: "map_of (teachers (mgr s)) n = Some T"
      and M': "mgr s' = (mgr s)\<lparr>teachers := AList.update n (assign T d t cn) (teachers (mgr s))\<rparr>"
    have ne: "av \<noteq> []" using av(2) by auto
    have "cell (schedule T) d t \<noteq> None \<longrightarrow> booking (mgr s') n d t = Some cn"
      unfolding M' booking_update by (simp add: cell_assign)
    then have "\<exists>n \<in> set av. \<exists>T. map_of (teachers (mgr s)) n = Some T \<and>
                   cell (timetable s') t d = Some (subj @ '' ('' @ n @ '')'') \<and>
                   mgr s' = (mgr s)\<lparr>teachers :=
                              AList.update n (assign T d t cn) (teachers (mgr s))\<rparr> \<and>
                   (cell (schedule T) d t \<noteq> None \<longrightarrow>
                      booking (mgr s') n d t = Some cn)"
      using av(2) T c M' by blast
    then show ?thesis using subj av(1) ne by auto
  qed
qed

lemma example_place:
  "place [''English''] ''1-5'' ''Monday'' ''8:00-8:50 AM'' ''Grade 1 A'' example_cstate =
     Inr \<lparr>timetable = (free_schedule [''8:00-8:50 AM''] [''Monday''])
                         (''8:00-8:50 AM'' \<mapsto> [''Monday'' \<mapsto> ''English (TBD)'']),
          available_slots = [''Monday'' \<mapsto> []],
          mgr = init_manager, source = []\<rparr>"
  by (simp add: place_def example_cstate_def choice_def assign_teacher_def
        get_available_teachers_def init_manager_def set_cell_def free_schedule_def
        pool_remove_def fun_eq_iff)

text \<open>
  The claim as stated fails: with no teacher registered, the cell of the subject
  \<open>English\<close> holds \<open>English (TBD)\<close>, not the bare \<open>TBD\<close>.
\<close>

theorem placement_outcome_counterexample:
  "(case place [''English''] ''1-5'' ''Monday'' ''8:00-8:50 AM'' ''Grade 1 A'' example_cstate of
      Inl M \<Rightarrow> False
    | Inr s' \<Rightarrow> cell (timetable s') ''8:00-8:50 AM'' ''Monday'' = Some ''English (TBD)'' \<and>
                cell (timetable s') ''8:00-8:50 AM'' ''Monday'' \<noteq> Some ''TBD'')"
  by (simp add: example_place cell_def)

theorem placement_outcome_witness:
  "\<exists>subj av. subj \<in> set [''English''] \<and>
      get_available_teachers (mgr example_cstate) subj ''1-5'' ''Monday'' ''8:00-8:50 AM'' = Some av \<and>
      av = []"
  using placement_outcome[OF example_place]
  by (auto simp: example_cstate_def get_available_teachers_def init_manager_def)

subsection \<open>The lunch break\<close>

lemma midnight_slots:
  "time_slots_of midnight_params = Inr (map format_hour [0..24])"
proof -
  have "parse_time ''12:00-12:50 AM'' = Some 0 \<and> parse_time ''13:00-13:50 PM'' = Some 25"
    by code_simp
  then have "time_slots_of midnight_params = Inr (create_time_slots 0 25 25)"
    using time_slots_of_ok[of midnight_params 0 25] by (simp add: midnight_params_def)
  then show ?thesis using create_time_slots_eq[of 25 25 0] by simp
qed

lemma midnight_labels:
  "map format_hour [0..24] =
     [''12:00-12:50 AM'', ''1:00-1:50 AM'', ''2:00-2:50 AM'', ''3:00-3:50 AM'', ''4:00-4:50 AM'',
      ''5:00-5:50 AM'', ''6:00-6:50 AM'', ''7:00-7:50 AM'', ''8:00-8:50 AM'', ''9:00-9:50 AM'',
      ''10:00-10:50 AM'', ''11:00-11:50 AM'', ''12:00-12:50 PM'', ''1:00-1:50 PM'',
      ''2:00-2:50 PM'', ''3:00-3:50 PM'', ''4:00-4:50 PM'', ''5:00-5:50 PM'', ''6:00-6:50 PM'',
      ''7:00-7:50 PM'', ''8:00-8:50 PM'', ''9:00-9:50 PM'', ''10:00-10:50 PM'',
      ''11:00-11:50 PM'', ''12:00-12:50 AM'']"
  by code_simp

lemma midnight_lunch_in_pool:
  "''12:00-12:50 AM'' \<in> set (start_pool midnight_params (map format_hour [0..24]) ''Monday'')"
  unfolding midnight_labels
  by (simp add: start_pool_def open_slots_def midnight_params_def)


lemma lunch_not_in_start_pool:
  assumes "distinct ts" and "lunch_time p \<in> set ts"
  shows "lunch_time p \<notin> set (start_pool p ts d)"
proof -
  have "distinct (open_slots p ts d)" using assms(1) by (simp add: open_slots_def)
  then show ?thesis using assms(2) by (simp add: start_pool_def)
qed

lemma run_bookings:
  assumes "generate_timetable M p g = (Generation_Complete, files, M')"
    and "time_slots_of p = Inr ts"
  shows "booking M' n d t = booking (run_start M (days_of p) ts) n d t \<or>
         (d \<in> set (days_of p) \<and> t \<in> set (start_pool p ts d))"
    and "fst ` set (teachers M') = fst ` set (teachers M)"
proof -
  from generate_run_inv[OF assms] obtain M3 where
      inv: "run_inv p (days_of p) ts (run_start M (days_of p) ts) M3"
    and eq: "teachers M' = teachers M3" "booking M' = booking M3"
    by blast
  have "booking M3 n d t = booking (run_start M (days_of p) ts) n d t \<or>
         (booking (run_start M (days_of p) ts) n d t = Some [] \<and> d \<in> set (days_of p) \<and>
          t \<in> set (start_pool p ts d))"
    using inv unfolding run_inv_def by blast
  then show "booking M' n d t = booking (run_start M (days_of p) ts) n d t \<or>
         (d \<in> set (days_of p) \<and> t \<in> set (start_pool p ts d))"
    using eq(2) by auto
  have "map fst (teachers M3) = map fst (teachers M)"
    using inv keys_run_start[of M "days_of p" ts] by (simp add: run_inv_def)
  then show "fst ` set (teachers M') = fst ` set (teachers M)"
    unfolding eq(1) by (metis list.set_map)
qed

text \<open>
  C6, as amended. In a complete run whose slot labels are pairwise different and include
  the lunch slot: in every class grid the lunch cell of every day of the run holds the
  lunch label of the program, the words \<open>Lunch Break\<close>, a blank and the four UTF-8
  bytes of U+1F37D; the pool with which the activity and core filling start has the
  lunch slot removed; and every registered teacher's schedule is free at the lunch
  slot of every day when the run ends.
\<close>

theorem lunch_break_cells:
  assumes "generate_timetable M p g = (Generation_Complete, files, M')"
    and "time_slots_of p = Inr ts" and "lunch_time p \<in> set ts" and "distinct ts"
    and "(c, G) \<in> set (timetable_cache M')" and "d \<in> set (days_of p)"
  shows "cell G (lunch_time p) d = Some LUNCH_BREAK \<and>
         (\<exists>tt av. class_start p (days_of p) ts = Some (tt, av) \<and>
                  av d = Some (start_pool p ts d)) \<and>
         lunch_time p \<notin> set (start_pool p ts d) \<and>
         (\<forall>n \<in> fst ` set (teachers M'). booking M' n d (lunch_time p) = Some [])"
proof -
  have np: "lunch_time p \<notin> set (start_pool p ts d)"
    by (rule lunch_not_in_start_pool[OF assms(4,3)])
  have "grid_ok p (days_of p) ts G" by (rule cached_grid_ok(1)[OF assms(1,2,5)])
  then have "cell G (lunch_time p) d = cell (start_grid p (days_of p) ts) (lunch_time p) d"
    using np unfolding grid_ok_def by blast
  then have 1: "cell G (lunch_time p) d = Some LUNCH_BREAK"
    using start_grid_cell[OF assms(3,6), of p] by simp
  have 2: "\<exists>tt av. class_start p (days_of p) ts = Some (tt, av) \<and>
                  av d = Some (start_pool p ts d)"
    using class_start_eq[OF distinct_days_of[of p], where p = p and ts = ts] assms(6) by auto
  have 3: "\<forall>n \<in> fst ` set (teachers M'). booking M' n d (lunch_time p) = Some []"
  proof
    fix n assume "n \<in> fst ` set (teachers M')"
    then have n: "n \<in> fst ` set (teachers M)" using run_bookings(2)[OF assms(1,2)] by simp
    have "booking M' n d (lunch_time p) = booking (run_start M (days_of p) ts) n d (lunch_time p)"
      using run_bookings(1)[OF assms(1,2), of n d "lunch_time p"] np by blast
    then show "booking M' n d (lunch_time p) = Some []"
      using n assms(3,6) by (simp add: booking_run_start)
  qed
  show ?thesis using 1 2 np 3 by blast
qed

lemma example_slots_distinct:
  "distinct [''8:00-8:50 AM'', ''9:00-9:50 AM'', ''10:00-10:50 AM'', ''11:00-11:50 AM'',
             ''12:00-12:50 PM'', ''1:00-1:50 PM'', ''2:00-2:50 PM'']"
  by simp

theorem lunch_break_cells_witness:
  "cell (cached_grid (snd (snd example_run)) ''Grade 1 A'') ''12:00-12:50 PM'' ''Monday''
     = Some LUNCH_BREAK"
  using lunch_break_cells[OF example_run_eq example_time_slots _ example_slots_distinct
          example_grid_cached(2), of "''Monday''"]
  by (simp add: example_params_def days_of_def WEEKDAYS_def)

lemma LUNCH_BREAK_last: "last LUNCH_BREAK = CHR 0xBD"
  by (simp add: LUNCH_BREAK_def)

lemma midnight_run_complete:
  "\<exists>files M'. midnight_run = (Generation_Complete, files, M') \<and>
     map fst (timetable_cache M') = classes_of [''A'', ''B'', ''C'', ''D'']"
proof -
  have "\<exists>files M'. generate_timetable example_manager midnight_params []
                      = (Generation_Complete, files, M') \<and>
           (distinct (classes_of (take 4 (selected_sections midnight_params))) \<longrightarrow>
              map fst (timetable_cache M') = classes_of (take 4 (selected_sections midnight_params))) \<and>
           map fst (teacher_timetable M') = map fst (teachers example_manager) \<and>
           map fst (teachers M') = map fst (teachers example_manager)"
    by (rule generate_succeeds[OF wf_example_manager midnight_slots, of 1])
       (use example_activity_count in \<open>simp_all add: midnight_params_def\<close>)
  then show ?thesis
    using example_classes_distinct by (auto simp: midnight_run_def midnight_params_def)
qed

text \<open>
  The claim as stated fails twice. The label in the run on the starting values is not the
  bare string \<open>Lunch Break\<close>. And in a complete run over the hours 0 to 24, whose
  first and last slot share the lunch label, only the first occurrence leaves the pool,
  and the lunch cell of Monday ends up with a subject instead of the lunch label.
\<close>

theorem lunch_break_cells_counterexample:
  "cell (cached_grid (snd (snd example_run)) ''Grade 1 A'') ''12:00-12:50 PM'' ''Monday''
     = Some LUNCH_BREAK \<and>
   LUNCH_BREAK \<noteq> ''Lunch Break'' \<and>
   fst midnight_run = Generation_Complete \<and>
   cell (cached_grid (snd (snd midnight_run)) ''Grade 1 A'') ''12:00-12:50 AM'' ''Monday''
     \<noteq> Some LUNCH_BREAK"
proof -
  have ok: "grid_ok example_params (days_of example_params)
              [''8:00-8:50 AM'', ''9:00-9:50 AM'', ''10:00-10:50 AM'', ''11:00-11:50 AM'',
               ''12:00-12:50 PM'', ''1:00-1:50 PM'', ''2:00-2:50 PM'']
              (cached_grid (snd (snd example_run)) ''Grade 1 A'')"
    by (rule cached_grid_ok(1)[OF example_run_eq example_time_slots example_grid_cached(2)])
  have "''12:00-12:50 PM'' \<notin> set (start_pool example_params
              [''8:00-8:50 AM'', ''9:00-9:50 AM'', ''10:00-10:50 AM'', ''11:00-11:50 AM'',
               ''12:00-12:50 PM'', ''1:00-1:50 PM'', ''2:00-2:50 PM''] ''Monday'')"
    by (simp add: start_pool_def open_slots_def example_params_def)
  then have "cell (cached_grid (snd (snd example_run)) ''Grade 1 A'') ''12:00-12:50 PM'' ''Monday''
     = cell (start_grid example_params (days_of example_params)
              [''8:00-8:50 AM'', ''9:00-9:50 AM'', ''10:00-10:50 AM'', ''11:00-11:50 AM'',
               ''12:00-12:50 PM'', ''1:00-1:50 PM'', ''2:00-2:50 PM'']) ''12:00-12:50 PM'' ''Monday''"
    using ok unfolding grid_ok_def by blast
  then have 1: "cell (cached_grid (snd (snd example_run)) ''Grade 1 A'') ''12:00-12:50 PM'' ''Monday''
     = Some LUNCH_BREAK"
    by (simp add: cell_def start_grid_def example_params_def days_of_def WEEKDAYS_def)
  have 2: "LUNCH_BREAK \<noteq> ''Lunch Break''" by (simp add: LUNCH_BREAK_def)
  obtain files M' where r: "midnight_run = (Generation_Complete, files, M')"
    and k: "map fst (timetable_cache M') = classes_of [''A'', ''B'', ''C'', ''D'']"
    using midnight_run_complete by blast
  have 3: "fst midnight_run = Generation_Complete" by (simp only: r fst_conv)
  have "''Grade 1 A'' \<in> set (map fst (timetable_cache M'))"
    using example_class_listed by (simp only: k)
  then have "''Grade 1 A'' \<in> fst ` set (timetable_cache M')" by simp
  then have inc: "(''Grade 1 A'', cached_grid M' ''Grade 1 A'') \<in> set (timetable_cache M')"
    by (rule cached_grid_in_cache)
  have g: "generate_timetable example_manager midnight_params [] = (Generation_Complete, files, M')"
    using r by (simp add: midnight_run_def)
  have "grid_ok midnight_params (days_of midnight_params) (map format_hour [0..24])
          (cached_grid M' ''Grade 1 A'')"
    by (rule cached_grid_ok(1)[OF g midnight_slots inc])
  moreover have "''Monday'' \<in> set (days_of midnight_params)"
    by (simp add: days_of_def WEEKDAYS_def)
  ultimately obtain subj n where
    "cell (cached_grid M' ''Grade 1 A'') ''12:00-12:50 AM'' ''Monday'' = Some (subj @ '' ('' @ n @ '')'')"
    using midnight_lunch_in_pool unfolding grid_ok_def by blast
  moreover have "subj @ '' ('' @ n @ '')'' \<noteq> LUNCH_BREAK"
  proof
    assume "subj @ '' ('' @ n @ '')'' = LUNCH_BREAK"
    then have "last (subj @ '' ('' @ n @ '')'') = last LUNCH_BREAK" by simp
    then show False by (simp add: LUNCH_BREAK_last)
  qed
  ultimately have 4: "cell (cached_grid (snd (snd midnight_run)) ''Grade 1 A'') ''12:00-12:50 AM'' ''Monday''
     \<noteq> Some LUNCH_BREAK"
    by (simp add: r)
  show ?thesis using 1 2 3 4 by blast
qed

subsection \<open>No double booking\<close>

lemma shows_teacher_iff: "shows_teacher v n \<longleftrightarrow> (\<exists>x. v = x @ '' ('' @ n @ '')'')"
proof
  assume a: "shows_teacher v n"
  let ?w = "'' ('' @ n @ '')''"
  have "drop (length v - length ?w) v = ?w"
    using a unfolding shows_teacher_def Let_def by blast
  then have "v = take (length v - length ?w) v @ ?w"
    by (metis append_take_drop_id)
  then show "\<exists>x. v = x @ '' ('' @ n @ '')''" by blast
next
  assume "\<exists>x. v = x @ '' ('' @ n @ '')''"
  then show "shows_teacher v n" by (auto simp: shows_teacher_def Let_def)
qed

lemma takeWhile_upto_char:
  "c \<notin> set xs \<Longrightarrow> takeWhile (\<lambda>a. a \<noteq> c) (xs @ c # ys) = xs"
  by (induction xs) auto

lemma bracket_name_unique:
  assumes "x @ '' ('' @ n @ '')'' = y @ '' ('' @ m @ '')''"
    and "CHR ''('' \<notin> set n" and "CHR ''('' \<notin> set m"
  shows "n = m"
proof -
  have e: "rev n @ CHR ''('' # CHR '' '' # rev x = rev m @ CHR ''('' # CHR '' '' # rev y"
    using arg_cong[OF assms(1), of rev] by simp
  have "takeWhile (\<lambda>c. c \<noteq> CHR ''('') (rev n @ CHR ''('' # CHR '' '' # rev x) = rev n"
    using assms(2) by (intro takeWhile_upto_char) simp
  moreover have "takeWhile (\<lambda>c. c \<noteq> CHR ''('') (rev m @ CHR ''('' # CHR '' '' # rev y) = rev m"
    using assms(3) by (intro takeWhile_upto_char) simp
  ultimately have "rev n = rev m" using e by simp
  then show ?thesis by simp
qed

lemma shows_teacher_last: "shows_teacher v n \<Longrightarrow> v \<noteq> [] \<and> last v = CHR '')''"
  unfolding shows_teacher_iff by auto

lemma booking_registered:
  "booking M n d t = Some v \<Longrightarrow> n \<in> fst ` set (teachers M)"
  unfolding booking_def
  by (cases "map_of (teachers M) n") (auto dest!: map_of_SomeD intro: rev_image_eqI)

text \<open>If the cell of a class shows a registered teacher, the teacher's schedule holds the
  class at that day and slot.\<close>

lemma shown_teacher_booked:
  assumes bk: "backed c M' G" and sh: "shows_teacher (cell_text G t d) n"
    and names: "\<forall>m \<in> fst ` set (teachers M'). CHR ''('' \<notin> set m"
    and n: "n \<in> fst ` set (teachers M')" and tbd: "n \<noteq> ''TBD''"
  shows "booking M' n d t = Some c"
proof -
  have ne: "cell_text G t d \<noteq> []" and la: "last (cell_text G t d) = CHR '')''"
    using shows_teacher_last[OF sh] by auto
  obtain v where v: "cell G t d = Some v" "cell_text G t d = v"
    using ne by (cases "cell G t d") (auto simp: cell_text_def)
  have np: "CHR ''('' \<notin> set n" using names n by blast
  obtain x where x: "v = x @ '' ('' @ n @ '')''" using sh v(2) shows_teacher_iff by auto
  from bk v(1) have "v = [] \<or> v = LUNCH_BREAK \<or> (\<exists>subj. v = subj @ '' (TBD)'') \<or>
        (\<exists>subj m. v = subj @ '' ('' @ m @ '')'' \<and> booking M' m d t = Some c)"
    unfolding backed_def by blast
  then show ?thesis
  proof (elim disjE exE conjE)
    assume "v = []" then show ?thesis using ne v(2) by simp
  next
    assume "v = LUNCH_BREAK"
    then show ?thesis using la v(2) by (simp add: LUNCH_BREAK_def)
  next
    fix subj assume "v = subj @ '' (TBD)''"
    then have "x @ '' ('' @ n @ '')'' = subj @ '' ('' @ ''TBD'' @ '')''" using x by simp
    then have "n = ''TBD''" using np by (rule bracket_name_unique) simp
    then show ?thesis using tbd by simp
  next
    fix subj m assume m: "v = subj @ '' ('' @ m @ '')''" "booking M' m d t = Some c"
    have "m \<in> fst ` set (teachers M')" using m(2) by (rule booking_registered)
    then have "CHR ''('' \<notin> set m" using names by blast
    moreover have "x @ '' ('' @ n @ '')'' = subj @ '' ('' @ m @ '')''" using x m(1) by simp
    ultimately have "n = m" using np bracket_name_unique by blast
    then show ?thesis using m(2) by simp
  qed
qed


lemma assign_teacher_free_only:
  assumes "assign_teacher Ma subj gk da ta cn ga = Inr (m, Mb, gb)"
    and "booking Mb n' d' t' \<noteq> booking Ma n' d' t'"
  shows "n' = m \<and> d' = da \<and> t' = ta \<and> booking Ma n' d' t' = Some [] \<and>
         booking Mb n' d' t' = Some cn"
proof -
  from assign_teacher_booking[OF assms(1)] show ?thesis
  proof
    assume "Mb = Ma \<and> m = ''TBD'' \<and> get_available_teachers Ma subj gk da ta = Some []"
    then show ?thesis using assms(2) by simp
  next
    assume a: "(booking Ma m da ta = None \<or> booking Ma m da ta = Some []) \<and>
          m \<in> set (index_lookup Ma subj gk) \<and> map_of (teachers Ma) m \<noteq> None \<and>
          (\<forall>n' d' t'. booking Mb n' d' t' =
             (if n' = m \<and> d' = da \<and> t' = ta \<and> booking Ma m da ta \<noteq> None then Some cn
              else booking Ma n' d' t'))"
    then have e: "booking Mb n' d' t' =
             (if n' = m \<and> d' = da \<and> t' = ta \<and> booking Ma m da ta \<noteq> None then Some cn
              else booking Ma n' d' t')" by blast
    have c: "n' = m \<and> d' = da \<and> t' = ta \<and> booking Ma m da ta \<noteq> None"
      using e assms(2) by (auto split: if_splits)
    have "booking Ma m da ta = None \<or> booking Ma m da ta = Some []" using a by simp
    then have "booking Ma m da ta = Some []" using c by simp
    then show ?thesis using c e by simp
  qed
qed

text \<open>
  C1. In a complete run, every cell of a cached class grid that names a teacher is backed
  by that teacher's own schedule, which holds the class label at the day and slot; a
  schedule cell holds one label, so for a registered teacher (names are taken without
  an opening bracket and other than the placeholder \<open>TBD\<close>, so that the name can be
  read back from the cell text) the grids of two different classes never both show the
  teacher at the same day and slot. And \<open>assign_teacher\<close> changes a schedule cell
  only if it is the cell of the returned teacher at the requested day and slot and was
  free.
\<close>

theorem no_double_booking:
  assumes "generate_timetable M p g = (Generation_Complete, files, M')"
    and "(c1, G1) \<in> set (timetable_cache M')" and "(c2, G2) \<in> set (timetable_cache M')"
    and "c1 \<noteq> c2"
    and "\<forall>m \<in> fst ` set (teachers M). CHR ''('' \<notin> set m"
    and "n \<in> fst ` set (teachers M)" and "n \<noteq> ''TBD''"
  shows "backed c1 M' G1 \<and> backed c2 M' G2 \<and>
         \<not> (shows_teacher (cell_text G1 t d) n \<and> shows_teacher (cell_text G2 t d) n) \<and>
         (assign_teacher Ma subj gk da ta cn ga = Inr (m, Mb, gb) \<longrightarrow>
          booking Mb n' d' t' \<noteq> booking Ma n' d' t' \<longrightarrow>
            n' = m \<and> d' = da \<and> t' = ta \<and> booking Ma n' d' t' = Some [] \<and>
            booking Mb n' d' t' = Some cn)"
proof -
  obtain ts where ts: "time_slots_of p = Inr ts"
    using generate_complete[OF assms(1)] by blast
  have b1: "backed c1 M' G1" by (rule cached_grid_ok(2)[OF assms(1) ts assms(2)])
  have b2: "backed c2 M' G2" by (rule cached_grid_ok(2)[OF assms(1) ts assms(3)])
  have keys: "fst ` set (teachers M') = fst ` set (teachers M)"
    by (rule run_bookings(2)[OF assms(1) ts])
  have names: "\<forall>m \<in> fst ` set (teachers M'). CHR ''('' \<notin> set m"
    and n: "n \<in> fst ` set (teachers M')"
    using assms(5,6) keys by simp_all
  have "\<not> (shows_teacher (cell_text G1 t d) n \<and> shows_teacher (cell_text G2 t d) n)"
  proof
    assume a: "shows_teacher (cell_text G1 t d) n \<and> shows_teacher (cell_text G2 t d) n"
    have "booking M' n d t = Some c1"
      using shown_teacher_booked[OF b1 _ names n assms(7)] a by blast
    moreover have "booking M' n d t = Some c2"
      using shown_teacher_booked[OF b2 _ names n assms(7)] a by blast
    ultimately show False using assms(4) by simp
  qed
  then show ?thesis using b1 b2 assign_teacher_free_only by blast
qed

lemma example_class_B_listed: "''Grade 1 B'' \<in> set (classes_of [''A'', ''B'', ''C'', ''D''])"
  by code_simp

lemma example_grid_B_cached:
  "(''Grade 1 B'', cached_grid (snd (snd example_run)) ''Grade 1 B'')
      \<in> set (timetable_cache (snd (snd example_run)))"
proof -
  obtain files M' where r: "example_run = (Generation_Complete, files, M')"
    and k: "map fst (timetable_cache M') = classes_of [''A'', ''B'', ''C'', ''D'']"
    using example_run_complete by blast
  have "''Grade 1 B'' \<in> set (map fst (timetable_cache M'))"
    using example_class_B_listed by (simp only: k)
  then have "''Grade 1 B'' \<in> fst ` set (timetable_cache M')" by simp
  then show ?thesis
    using cached_grid_in_cache[of "''Grade 1 B''" M'] by (simp only: r snd_conv)
qed

lemma example_teacher_names: "fst ` set (teachers example_manager) = {''Asha''}"
  by (simp add: example_manager_def add_teacher_def init_manager_def Let_def)

theorem no_double_booking_witness:
  "\<not> (shows_teacher
         (cell_text (cached_grid (snd (snd example_run)) ''Grade 1 A'') ''8:00-8:50 AM'' ''Monday'')
         ''Asha'' \<and>
       shows_teacher
         (cell_text (cached_grid (snd (snd example_run)) ''Grade 1 B'') ''8:00-8:50 AM'' ''Monday'')
         ''Asha'')"
  using no_double_booking[OF example_run_eq example_grid_cached(2) example_grid_B_cached,
          of "''Asha''" "''8:00-8:50 AM''" "''Monday''"]
  by (simp add: example_teacher_names)

end
